theory Spec2Isabelle
  imports Main "HOL-Library.Word" "HOL-Library.Sublist"
begin

unbundle bit_operations_syntax

section \<open>The expiry sweep of server.ts\<close>

text \<open>
  server.ts, lines 19 and 20: the two timing constants, in milliseconds.
\<close>

definition CLEANUP_INTERVAL :: int where
  "CLEANUP_INTERVAL = 15 * 60 * 1000"

definition MAX_AGE :: int where
  "MAX_AGE = 60 * 60 * 1000"

text \<open>
  The upload directory is a flat list of named entries. Of a file the sweep reads only
  its modification time; the two flags say whether the operating system refuses
  \<open>stat\<close> or \<open>unlink\<close> on it (a permission error). A name that is not in the
  directory has vanished: \<open>stat\<close> and \<open>unlink\<close> answer \<open>ENOENT\<close>.
\<close>

record entry =
  mtime :: int
  stat_denied :: bool
  unlink_denied :: bool

type_synonym upload_dir = "(string \<times> entry) list"

datatype errno = ENOENT | EACCES

record stats =
  mtimeMs :: int

text \<open>
  Node calls a callback back with \<open>(err, data)\<close>: on failure \<open>err\<close> is set and the data
  is undefined, on success \<open>err\<close> is null and the data is there.
\<close>

type_synonym 'a callback_args = "errno option \<times> 'a option"

definition node_contract :: "'a callback_args \<Rightarrow> bool" where
  "node_contract args = (case args of (err, data) \<Rightarrow> (err = None) = (data \<noteq> None))"

definition fs_stat :: "upload_dir \<Rightarrow> string \<Rightarrow> stats callback_args" where
  "fs_stat d name =
     (case map_of d name of
        None \<Rightarrow> (Some ENOENT, None)
      | Some e \<Rightarrow>
          if stat_denied e then (Some EACCES, None)
          else (None, Some \<lparr>mtimeMs = mtime e\<rparr>))"

definition fs_unlink :: "upload_dir \<Rightarrow> string \<Rightarrow> errno option \<times> upload_dir" where
  "fs_unlink d name =
     (case map_of d name of
        None \<Rightarrow> (Some ENOENT, d)
      | Some e \<Rightarrow>
          if unlink_denied e then (Some EACCES, d)
          else (None, filter (\<lambda>p. fst p \<noteq> name) d))"

definition fs_readdir :: "upload_dir \<Rightarrow> string list callback_args" where
  "fs_readdir d = (None, Some (map fst d))"

text \<open>
  What the sweep did with one entry of the snapshot. \<open>Deleted\<close> is the branch that
  logs \<open>[Cleanup] Deleted expired file\<close>; \<open>UnlinkFailed\<close> is the branch where
  \<open>unlink\<close> was called and called back with an error, which the code ignores.
\<close>

datatype outcome = StatFailed | Kept | Deleted | UnlinkFailed

text \<open>
  An exception thrown inside a callback is not caught anywhere in server.ts and ends the
  process. Reading \<open>stats.mtimeMs\<close> of an undefined \<open>stats\<close>, or calling
  \<open>files.forEach\<close> on an undefined \<open>files\<close>, would throw a TypeError.
\<close>

datatype 'a run = Crashed | Running 'a

text \<open>server.ts, lines 31 to 38: the callback of \<open>fs.stat\<close>.\<close>

definition stat_callback ::
  "int \<Rightarrow> upload_dir \<Rightarrow> string \<Rightarrow> stats callback_args \<Rightarrow> (outcome \<times> upload_dir) run" where
  "stat_callback now d file args =
     (case args of (err, st) \<Rightarrow>
        if err \<noteq> None then Running (StatFailed, d)
        else (case st of
                None \<Rightarrow> Crashed
              | Some s \<Rightarrow>
                  if now - mtimeMs s > MAX_AGE then
                    (case fs_unlink d file of
                       (None, d') \<Rightarrow> Running (Deleted, d')
                     | (Some e, d') \<Rightarrow> Running (UnlinkFailed, d'))
                  else Running (Kept, d)))"

text \<open>server.ts, lines 30 and 31: one turn of the \<open>forEach\<close> body.\<close>

definition process_entry :: "int \<Rightarrow> upload_dir \<Rightarrow> string \<Rightarrow> (outcome \<times> upload_dir) run" where
  "process_entry now d file = stat_callback now d file (fs_stat d file)"

definition entry_outcome :: "int \<Rightarrow> upload_dir \<Rightarrow> string \<Rightarrow> outcome run" where
  "entry_outcome now d file =
     (case process_entry now d file of Crashed \<Rightarrow> Crashed | Running (out, d') \<Rightarrow> Running out)"

fun unlink_called :: "outcome \<Rightarrow> bool" where
  "unlink_called Deleted = True"
| "unlink_called UnlinkFailed = True"
| "unlink_called StatFailed = False"
| "unlink_called Kept = False"

text \<open>
  server.ts, line 29: \<open>files.forEach\<close>. The callbacks of the entries run one after the
  other, in the order of the snapshot; \<open>now\<close> was read once, before the loop.
\<close>

fun forEach_file ::
  "int \<Rightarrow> string list \<Rightarrow> upload_dir \<Rightarrow> ((string \<times> outcome) list \<times> upload_dir) run" where
  "forEach_file now [] d = Running ([], d)"
| "forEach_file now (file # files) d =
     (case process_entry now d file of
        Crashed \<Rightarrow> Crashed
      | Running (out, d1) \<Rightarrow>
          (case forEach_file now files d1 of
             Crashed \<Rightarrow> Crashed
           | Running (outs, d2) \<Rightarrow> Running ((file, out) # outs, d2)))"

text \<open>server.ts, lines 23 to 40: the callback of \<open>fs.readdir\<close>.\<close>

definition readdir_callback ::
  "int \<Rightarrow> upload_dir \<Rightarrow> string list callback_args \<Rightarrow> ((string \<times> outcome) list \<times> upload_dir) run" where
  "readdir_callback now d args =
     (case args of (err, files) \<Rightarrow>
        if err \<noteq> None then Running ([], d)
        else (case files of
                None \<Rightarrow> Crashed
              | Some fs \<Rightarrow> forEach_file now fs d))"

text \<open>
  server.ts, lines 22 to 41: the timer. Each tick is one sweep, at the time \<open>Date.now()\<close>
  returns in it and with what \<open>readdir\<close> calls back with; a crashed process runs no
  further tick.
\<close>

fun setInterval_ticks ::
  "(int \<times> string list callback_args) list \<Rightarrow> upload_dir \<Rightarrow> upload_dir run" where
  "setInterval_ticks [] d = Running d"
| "setInterval_ticks ((now, rd) # ticks) d =
     (case readdir_callback now d rd of
        Crashed \<Rightarrow> Crashed
      | Running (outs, d') \<Rightarrow> setInterval_ticks ticks d')"

text \<open>
  The timer fires every \<open>CLEANUP_INTERVAL\<close> milliseconds after the server started:
  the time of the \<open>k\<close>-th tick. A later write to a stored file sets its modification
  time.
\<close>

definition tick_time :: "int \<Rightarrow> nat \<Rightarrow> int" where
  "tick_time start k = start + int k * CLEANUP_INTERVAL"

definition fs_touch :: "upload_dir \<Rightarrow> string \<Rightarrow> int \<Rightarrow> upload_dir" where
  "fs_touch d name t = map (\<lambda>p. if fst p = name then (fst p, (snd p)\<lparr>mtime := t\<rparr>) else p) d"

section \<open>Paths\<close>

text \<open>
  \<open>path.join\<close> and \<open>path.extname\<close> are Node's, on a POSIX host. \<open>path.join\<close> joins
  its non-empty arguments with \<open>/\<close> and normalizes the result: empty and \<open>.\<close> segments
  are dropped, a \<open>..\<close> segment removes the segment before it, and above the root of an
  absolute path a \<open>..\<close> is dropped.
\<close>

fun split_slash :: "string \<Rightarrow> string list" where
  "split_slash [] = [[]]"
| "split_slash (c # cs) =
     (if c = CHR ''/'' then [] # split_slash cs
      else (case split_slash cs of [] \<Rightarrow> [[c]] | s # ss \<Rightarrow> (c # s) # ss))"

fun normalize_segments :: "bool \<Rightarrow> string list \<Rightarrow> string list \<Rightarrow> string list" where
  "normalize_segments allowAboveRoot res [] = res"
| "normalize_segments allowAboveRoot res (seg # segs) =
     (if seg = [] \<or> seg = ''.'' then normalize_segments allowAboveRoot res segs
      else if seg = ''..'' then
        (if res \<noteq> [] \<and> last res \<noteq> ''..''
           then normalize_segments allowAboveRoot (butlast res) segs
         else if allowAboveRoot
           then normalize_segments allowAboveRoot (res @ [''..'']) segs
         else normalize_segments allowAboveRoot res segs)
      else normalize_segments allowAboveRoot (res @ [seg]) segs)"

fun join_slash :: "string list \<Rightarrow> string" where
  "join_slash [] = []"
| "join_slash [s] = s"
| "join_slash (s # ss) = s @ ''/'' @ join_slash ss"

definition path_normalize :: "string \<Rightarrow> string" where
  "path_normalize path =
     (if path = [] then ''.''
      else
        let isAbsolute = (hd path = CHR ''/'');
            trailingSeparator = (last path = CHR ''/'');
            p = join_slash (normalize_segments (\<not> isAbsolute) [] (split_slash path))
        in if p = [] then (if isAbsolute then ''/'' else if trailingSeparator then ''./'' else ''.'')
           else (if isAbsolute then ''/'' else []) @ p @ (if trailingSeparator then ''/'' else []))"

definition path_join :: "string \<Rightarrow> string \<Rightarrow> string" where
  "path_join a b =
     (if a = [] \<and> b = [] then ''.''
      else path_normalize (if a = [] then b else if b = [] then a else a @ ''/'' @ b))"

text \<open>
  \<open>path.extname\<close> scans the path from its last character down. It skips the separators
  at the end, stops at the first separator after that, remembers the first dot it meets
  (\<open>startDot\<close>, the last dot of the last component) and whether the character it read last
  was a dot.
\<close>

record ext_state =
  startDot :: int
  startPart :: int
  ext_end :: int
  matchedSlash :: bool
  preDotState :: int

fun extname_loop :: "string \<Rightarrow> nat \<Rightarrow> ext_state \<Rightarrow> ext_state" where
  "extname_loop path 0 st = st"
| "extname_loop path (Suc i) st =
     (let code = path ! i in
      if code = CHR ''/'' then
        (if \<not> matchedSlash st then st\<lparr>startPart := int i + 1\<rparr>
         else extname_loop path i st)
      else
        let st1 = (if ext_end st = - 1
                   then st\<lparr>matchedSlash := False, ext_end := int i + 1\<rparr> else st);
            st2 = (if code = CHR ''.'' then
                     (if startDot st1 = - 1 then st1\<lparr>startDot := int i\<rparr>
                      else if preDotState st1 \<noteq> 1 then st1\<lparr>preDotState := 1\<rparr>
                      else st1)
                   else if startDot st1 \<noteq> - 1 then st1\<lparr>preDotState := - 1\<rparr>
                   else st1)
        in extname_loop path i st2)"

definition extname_init :: ext_state where
  "extname_init =
     \<lparr>startDot = - 1, startPart = 0, ext_end = - 1, matchedSlash = True, preDotState = 0\<rparr>"

definition path_extname :: "string \<Rightarrow> string" where
  "path_extname path =
     (let st = extname_loop path (length path) extname_init
      in if startDot st = - 1 \<or> ext_end st = - 1 \<or> preDotState st = 0 \<or>
            (preDotState st = 1 \<and> startDot st = ext_end st - 1 \<and>
             startDot st = startPart st + 1)
         then []
         else take (nat (ext_end st - startDot st)) (drop (nat (startDot st)) path))"

text \<open>
  A path segment that \<open>path.join\<close> leaves as it is, an absolute path written from its
  segments, and what it means for a path to lie in a directory.
\<close>

definition clean_segment :: "string \<Rightarrow> bool" where
  "clean_segment s = (s \<noteq> [] \<and> CHR ''/'' \<notin> set s \<and> s \<noteq> ''.'' \<and> s \<noteq> ''..'')"

definition abs_path :: "string list \<Rightarrow> string" where
  "abs_path segs = (if segs = [] then ''/'' else concat (map (\<lambda>s. CHR ''/'' # s) segs))"

definition inside_dir :: "string \<Rightarrow> string \<Rightarrow> bool" where
  "inside_dir root p = (p = root \<or> prefix (root @ ''/'') p)"

text \<open>server.ts, line 12: \<open>path.join(process.cwd(), "uploads")\<close>.\<close>

definition uploadDir :: "string \<Rightarrow> string" where
  "uploadDir cwd = path_join cwd ''uploads''"

section \<open>Identifiers\<close>

text \<open>
  \<open>uuidv4()\<close> of the \<open>uuid\<close> package: sixteen random bytes, the version and variant
  bits set, printed as lower-case hexadecimal in groups of 8, 4, 4, 4 and 12 digits.
  The random bytes are the argument.
\<close>

definition hex_digit :: "nat \<Rightarrow> char" where
  "hex_digit n = ''0123456789abcdef'' ! n"

definition byteToHex :: "8 word \<Rightarrow> string" where
  "byteToHex b = [hex_digit (unat (drop_bit 4 b)), hex_digit (unat (b AND 15))]"

definition unsafeStringify :: "8 word list \<Rightarrow> string" where
  "unsafeStringify arr =
     byteToHex (arr ! 0) @ byteToHex (arr ! 1) @ byteToHex (arr ! 2) @ byteToHex (arr ! 3) @ ''-'' @
     byteToHex (arr ! 4) @ byteToHex (arr ! 5) @ ''-'' @
     byteToHex (arr ! 6) @ byteToHex (arr ! 7) @ ''-'' @
     byteToHex (arr ! 8) @ byteToHex (arr ! 9) @ ''-'' @
     byteToHex (arr ! 10) @ byteToHex (arr ! 11) @ byteToHex (arr ! 12) @
     byteToHex (arr ! 13) @ byteToHex (arr ! 14) @ byteToHex (arr ! 15)"

definition uuidv4 :: "8 word list \<Rightarrow> string" where
  "uuidv4 rnds =
     unsafeStringify (rnds[6 := (rnds ! 6 AND 0x0f) OR 0x40, 8 := (rnds ! 8 AND 0x3f) OR 0x80])"

definition uuid_char :: "char \<Rightarrow> bool" where
  "uuid_char c = (c \<in> set ''0123456789abcdef-'')"

section \<open>Uploads\<close>

text \<open>
  A file part of a multipart request: its field name, its file name, its media type and
  its length. multer hands it to the storage engine with the file name reduced to its
  base name.
\<close>

record file_part =
  fieldname :: string
  originalname :: string
  mimetype :: string
  size_bytes :: nat

text \<open>\<open>req.file\<close>: the part, and where the disk storage engine put it.\<close>

record req_file = file_part +
  destination :: string
  filename :: string
  path :: string

text \<open>server.ts, lines 45 to 51: the two callbacks given to \<open>multer.diskStorage\<close>.\<close>

definition destination_cb :: "string \<Rightarrow> string" where
  "destination_cb cwd = uploadDir cwd"

definition filename_cb :: "string \<Rightarrow> 'a file_part_scheme \<Rightarrow> string" where
  "filename_cb uuid file =
     (let ext = (if path_extname (originalname file) = [] then ''.mp4''
                 else path_extname (originalname file))
      in uuid @ ext)"

text \<open>
  The last component of a path: the separators at its end are dropped, then the text
  after the last separator is taken.
\<close>

definition base_name :: "string \<Rightarrow> string" where
  "base_name p =
     rev (takeWhile (\<lambda>c. c \<noteq> CHR ''/'') (dropWhile (\<lambda>c. c = CHR ''/'') (rev p)))"

text \<open>
  The extension of a file name stated on the name alone, as Node's documentation of
  \<open>path.extname\<close> has it: a name has an extension when it has a dot that is not its
  first character, and the extension is the text from the last dot to the end; the name
  \<open>..\<close> has none. It is shown below to be what \<open>path_extname\<close> computes.
\<close>

definition declared_extension :: "string \<Rightarrow> string option" where
  "declared_extension name =
     (if CHR ''.'' \<notin> set name then None
      else
        let e = rev (takeWhile (\<lambda>c. c \<noteq> CHR ''.'') (rev name));
            stem = take (length name - Suc (length e)) name
        in if stem = [] \<or> name = ''..'' then None else Some (CHR ''.'' # e))"

text \<open>server.ts, line 56: \<open>limits: { fileSize: 500 * 1024 * 1024 }\<close>.\<close>

definition fileSize_limit :: nat where
  "fileSize_limit = 500 * 1024 * 1024"

text \<open>
  What the callback of \<open>upload.single("video")\<close> receives: a \<open>MulterError\<close> with its
  code and message, or another error.
\<close>

datatype multer_code =
  LIMIT_PART_COUNT | LIMIT_FILE_SIZE | LIMIT_FILE_COUNT | LIMIT_FIELD_KEY |
  LIMIT_FIELD_VALUE | LIMIT_FIELD_COUNT | LIMIT_UNEXPECTED_FILE | MISSING_FIELD_NAME

datatype upload_error = MulterError multer_code string | OtherError string

datatype json = ErrorJson string | UploadJson string string


type_synonym response = "nat \<times> json"

text \<open>
  server.ts, lines 162 to 172: the callback of the multer middleware. \<open>None\<close> is
  \<open>next()\<close>.
\<close>

definition upload_callback :: "upload_error option \<Rightarrow> response option" where
  "upload_callback err =
     (case err of
        Some (MulterError code message) \<Rightarrow>
          if code = LIMIT_FILE_SIZE
          then Some (413, ErrorJson ''File is too large. Maximum size is 500MB.'')
          else Some (400, ErrorJson message)
      | Some (OtherError message) \<Rightarrow>
          Some (500, ErrorJson ''An unknown error occurred during upload.'')
      | None \<Rightarrow> None)"

text \<open>server.ts, lines 173 to 183: the second handler of the route.\<close>

definition upload_respond :: "req_file option \<Rightarrow> response" where
  "upload_respond file =
     (case file of
        None \<Rightarrow> (400, ErrorJson ''No video file provided'')
      | Some f \<Rightarrow> (200, UploadJson (''/v/'' @ filename f) (filename f)))"

definition post_api_upload :: "upload_error option \<Rightarrow> req_file option \<Rightarrow> response" where
  "post_api_upload err file =
     (case upload_callback err of Some r \<Rightarrow> r | None \<Rightarrow> upload_respond file)"

text \<open>
  The body of a request to the upload route: not multipart at all, a multipart body the
  parser cannot read (cut short, no boundary) with the parser's message, or a multipart
  body with at most one file part.
\<close>

datatype upload_body = NotMultipart | Malformed string | Multipart "file_part option"

text \<open>
  The file name of a part as multer's parser passes it on: the text after the last
  \<open>/\<close> or backslash, and nothing at all when that text is \<open>.\<close> or \<open>..\<close>.
\<close>

definition busboy_basename :: "string \<Rightarrow> string" where
  "busboy_basename name =
     (let b = rev (takeWhile (\<lambda>c. c \<noteq> CHR ''/'' \<and> c \<noteq> CHR 0x5C) (rev name))
      in if b = ''..'' \<or> b = ''.'' then [] else b)"

text \<open>
  \<open>multer({storage, limits}).single("video")\<close>, as multer's documentation and behaviour
  have it. A body that is not multipart is passed through without a file. An error of
  the parser is passed on as it is, which is not a \<open>MulterError\<close>. A part whose file
  name is empty after the parser's reduction is skipped, before anything else is looked
  at. No \<open>fileFilter\<close> is configured in server.ts, so the part's media type is not
  looked at. A part under another field name is \<open>LIMIT_UNEXPECTED_FILE\<close>; a part longer
  than the limit is \<open>LIMIT_FILE_SIZE\<close> and its file is removed; a failed write is an error
  of the file system, not a \<open>MulterError\<close>. The stored file is written under the name
  the callbacks give and its modification time is the time of the write.

  Two things are parameters: \<open>message\<close>, multer's message for each of its codes, and
  \<open>writable\<close>, whether the file system takes the write at a path. The file is opened
  when the part starts, so a path that cannot be written fails before the limit is
  reached. The text of a file system error stands for whatever the system reports:
  server.ts answers it with a text of its own and never forwards it.
\<close>

definition multer_single ::
  "string \<Rightarrow> (multer_code \<Rightarrow> string) \<Rightarrow> string \<Rightarrow> 8 word list \<Rightarrow> int \<Rightarrow> (string \<Rightarrow> bool) \<Rightarrow>
   upload_body \<Rightarrow> upload_dir \<Rightarrow> (upload_error option \<times> req_file option) \<times> upload_dir" where
  "multer_single field message cwd rnds now writable body d =
     (case body of
        NotMultipart \<Rightarrow> ((None, None), d)
      | Malformed parser_message \<Rightarrow> ((Some (OtherError parser_message), None), d)
      | Multipart None \<Rightarrow> ((None, None), d)
      | Multipart (Some part) \<Rightarrow>
          let p = part\<lparr>originalname := busboy_basename (originalname part)\<rparr> in
          if originalname p = [] then ((None, None), d)
          else if fieldname p \<noteq> field
          then ((Some (MulterError LIMIT_UNEXPECTED_FILE (message LIMIT_UNEXPECTED_FILE)), None), d)
          else
            let name = filename_cb (uuidv4 rnds) p;
                finalPath = path_join (destination_cb cwd) name
            in
            if \<not> writable finalPath then ((Some (OtherError ''write failed''), None), d)
            else if size_bytes p > fileSize_limit
            then ((Some (MulterError LIMIT_FILE_SIZE (message LIMIT_FILE_SIZE)), None), d)
            else
              ((None,
                Some (file_part.extend p (req_file.fields (destination_cb cwd) name finalPath))),
               (name, \<lparr>mtime = now, stat_denied = False, unlink_denied = False\<rparr>)
                 # filter (\<lambda>e. fst e \<noteq> name) d))"

text \<open>server.ts, lines 161 to 183: the route \<open>POST /api/upload\<close>.\<close>

definition handle_upload ::
  "(multer_code \<Rightarrow> string) \<Rightarrow> string \<Rightarrow> 8 word list \<Rightarrow> int \<Rightarrow> (string \<Rightarrow> bool) \<Rightarrow>
   upload_body \<Rightarrow> upload_dir \<Rightarrow> response \<times> upload_dir" where
  "handle_upload message cwd rnds now writable body d =
     (case multer_single ''video'' message cwd rnds now writable body d of
        ((err, file), d') \<Rightarrow> (post_api_upload err file, d'))"

section \<open>The client\<close>

text \<open>
  The upload page (\<open>handleFile\<close>, lines 14 to 36): the two checks the browser makes
  before it posts the file, and the part it posts.
\<close>

record browser_file =
  file_name :: string
  file_type :: string
  file_size :: nat

datatype client_step = SetError string | PostUpload file_part

definition handleFile :: "browser_file \<Rightarrow> client_step" where
  "handleFile file =
     (if \<not> prefix ''video/'' (file_type file)
      then SetError ''Please upload a valid video file (MP4, WebM, MOV, etc).''
      else if file_size file > 500 * 1024 * 1024
      then SetError ''File is too large. Maximum size is 500MB.''
      else PostUpload \<lparr>fieldname = ''video'', originalname = file_name file,
                        mimetype = file_type file, size_bytes = file_size file\<rparr>)"

section \<open>The viewer route\<close>

datatype page = ExpiredPage | ViewerPage string

text \<open>
  \<open>fs.existsSync\<close>: the upload directory, the files in it, and the other paths of the
  host that exist.
\<close>

definition existsSync :: "string \<Rightarrow> upload_dir \<Rightarrow> string list \<Rightarrow> string \<Rightarrow> bool" where
  "existsSync root d others p =
     (p = root \<or> p \<in> set (map (\<lambda>e. root @ ''/'' @ fst e) d) \<or> p \<in> set others)"

text \<open>
  server.ts, lines 63 to 158: \<open>GET /v/:id\<close>, with \<open>ident\<close> for \<open>req.params.id\<close>.
  The page is kept as its status and the URL of the video it embeds.
\<close>

definition get_v :: "(string \<Rightarrow> bool) \<Rightarrow> string \<Rightarrow> string \<Rightarrow> nat \<times> page" where
  "get_v exists root ident =
     (let filePath = path_join root ident in
      if \<not> exists filePath then (404, ExpiredPage)
      else (200, ViewerPage (''/uploads/'' @ ident)))"

text \<open>
  How a \<open>GET\<close> of a URL reaches the viewer route. Express matches the path of the
  request target, the text before \<open>?\<close> or \<open>#\<close>, against \<open>/v/:id\<close>: \<open>/v/\<close> in
  either case, one non-empty segment without \<open>/\<close>, and at most one \<open>/\<close> after it. The
  parameter is \<open>decodeURIComponent\<close> of the segment: a segment without \<open>%\<close> is returned
  as it is; what JavaScript makes of the escapes of one with \<open>%\<close>, the decoded text or a
  \<open>URIError\<close> (\<open>None\<close>), is the parameter \<open>decode\<close>. A segment that does not decode is
  answered 400 before the handler runs.
\<close>

definition decode_param :: "(string \<Rightarrow> string option) \<Rightarrow> string \<Rightarrow> string option" where
  "decode_param decode seg = (if CHR ''%'' \<notin> set seg then Some seg else decode seg)"

datatype 'a routed = NoMatch | BadRequest | Handled 'a

definition route_get_v ::
  "(string \<Rightarrow> string option) \<Rightarrow> (string \<Rightarrow> bool) \<Rightarrow> string \<Rightarrow> string \<Rightarrow> (nat \<times> page) routed" where
  "route_get_v decode exists root url =
     (let pathname = takeWhile (\<lambda>c. c \<noteq> CHR ''?'' \<and> c \<noteq> CHR ''#'') url;
          rest = drop 3 pathname;
          seg = (if rest \<noteq> [] \<and> last rest = CHR ''/'' then butlast rest else rest)
      in if (take 3 pathname = ''/v/'' \<or> take 3 pathname = ''/V/'') \<and>
            seg \<noteq> [] \<and> CHR ''/'' \<notin> set seg
         then (case decode_param decode seg of
                 None \<Rightarrow> BadRequest
               | Some ident \<Rightarrow> Handled (get_v exists root ident))
         else NoMatch)"

text \<open>
  The characters every client sends in a URL as they are: letters, digits, \<open>-\<close>, \<open>.\<close>,
  \<open>_\<close> and \<open>~\<close>.
\<close>

definition url_unreserved :: "char \<Rightarrow> bool" where
  "url_unreserved c =
     (c \<in> set ''ABCDEFGHIJKLMNOPQRSTUVWXYZabcdefghijklmnopqrstuvwxyz0123456789-._~'')"

section \<open>Properties of the sweep\<close>

lemma fs_stat_contract: "node_contract (fs_stat d name)"
  by (simp add: fs_stat_def node_contract_def split: option.splits)

lemma map_of_filter_other:
  "g \<noteq> f \<Longrightarrow> map_of (filter (\<lambda>p. fst p \<noteq> f) d) g = map_of d g"
  by (induction d) auto

lemma map_of_filter_same:
  "map_of (filter (\<lambda>p. fst p \<noteq> f) d) f = None"
  by (induction d) auto

lemma process_entry_cases:
  "process_entry now d f =
     (case map_of d f of
        None \<Rightarrow> Running (StatFailed, d)
      | Some e \<Rightarrow>
          if stat_denied e then Running (StatFailed, d)
          else if now - mtime e > MAX_AGE then
            (if unlink_denied e then Running (UnlinkFailed, d)
             else Running (Deleted, filter (\<lambda>p. fst p \<noteq> f) d))
          else Running (Kept, d))"
  by (simp add: process_entry_def stat_callback_def fs_stat_def fs_unlink_def
      split: option.splits)

lemma process_entry_total: "\<exists>out d'. process_entry now d f = Running (out, d')"
  by (simp add: process_entry_cases split: option.splits)

lemma process_entry_other:
  "process_entry now d f = Running (out, d') \<Longrightarrow> g \<noteq> f \<Longrightarrow> map_of d' g = map_of d g"
  by (auto simp: process_entry_cases map_of_filter_other split: option.splits if_splits)

lemma process_entry_same:
  "process_entry now d f = Running (out, d') \<Longrightarrow>
   map_of d' f = (if out = Deleted then None else map_of d f)"
  by (auto simp: process_entry_cases map_of_filter_same split: option.splits if_splits)

lemma entry_outcome_frame:
  "map_of d1 g = map_of d g \<Longrightarrow> entry_outcome now d1 g = entry_outcome now d g"
  by (simp add: entry_outcome_def process_entry_cases split: option.splits)

lemma entry_outcome_Running:
  "process_entry now d f = Running (out, d') \<Longrightarrow> entry_outcome now d f = Running out"
  by (simp add: entry_outcome_def)

lemma forEach_file_total: "\<exists>outs d'. forEach_file now files d = Running (outs, d')"
proof (induction files arbitrary: d)
  case Nil
  then show ?case by simp
next
  case (Cons f files)
  obtain out d1 where p: "process_entry now d f = Running (out, d1)"
    using process_entry_total by blast
  obtain outs d2 where "forEach_file now files d1 = Running (outs, d2)"
    using Cons.IH by blast
  then show ?case using p by simp
qed

lemma forEach_file_independent:
  assumes "distinct files" and "forEach_file now files d = Running (outs, d')"
  shows "map fst outs = files \<and>
         map (\<lambda>p. Running (snd p)) outs = map (entry_outcome now d) files \<and>
         (\<forall>g. g \<notin> set files \<longrightarrow> map_of d' g = map_of d g)"
  using assms
proof (induction files arbitrary: d outs d')
  case Nil
  then show ?case by simp
next
  case (Cons f files)
  obtain out d1 where p: "process_entry now d f = Running (out, d1)"
    using process_entry_total by blast
  obtain outs1 d2 where r: "forEach_file now files d1 = Running (outs1, d2)"
    using forEach_file_total by blast
  have o: "outs = (f, out) # outs1" and d2: "d' = d2"
    using Cons.prems(2) p r by simp_all
  from Cons.prems(1) have df: "distinct files" and nf: "f \<notin> set files" by auto
  note ih = Cons.IH [OF df r]
  have same: "entry_outcome now d1 g = entry_outcome now d g" if "g \<in> set files" for g
  proof -
    have "g \<noteq> f" using that nf by auto
    then show ?thesis using process_entry_other [OF p] entry_outcome_frame by blast
  qed
  have "map (\<lambda>p. Running (snd p)) outs1 = map (entry_outcome now d) files"
    using ih same by (simp cong: map_cong)
  moreover have "map_of d2 g = map_of d g" if "g \<notin> set (f # files)" for g
    using that ih process_entry_other [OF p, of g] by auto
  ultimately show ?case
    using ih o d2 entry_outcome_Running [OF p] by simp
qed

lemma readdir_callback_total:
  "node_contract rd \<Longrightarrow> \<exists>outs d'. readdir_callback now d rd = Running (outs, d')"
  using forEach_file_total [of now _ d]
  by (cases rd) (auto simp: readdir_callback_def node_contract_def split: option.splits)


lemma entry_outcome_cases:
  "entry_outcome now d f =
     (case map_of d f of
        None \<Rightarrow> Running StatFailed
      | Some e \<Rightarrow>
          if stat_denied e then Running StatFailed
          else if now - mtime e > MAX_AGE then
            (if unlink_denied e then Running UnlinkFailed else Running Deleted)
          else Running Kept)"
  by (simp add: entry_outcome_def process_entry_cases split: option.splits)

lemma map_of_outs:
  assumes "map fst outs = files" and "file \<in> set files"
    and "map (\<lambda>p. Running (snd p)) outs = map g files"
  shows "\<exists>out. map_of outs file = Some out \<and> g file = Running out"
  using assms
proof (induction outs arbitrary: files)
  case Nil
  then show ?case by simp
next
  case (Cons p outs)
  then show ?case by (cases p) (auto split: if_splits)
qed

lemma forEach_file_deletes:
  assumes "forEach_file now files d = Running (outs, d')"
  shows "map_of d' f = None \<longleftrightarrow>
           map_of d f = None \<or> (f \<in> set files \<and> entry_outcome now d f = Running Deleted)"
  using assms
proof (induction files arbitrary: d outs d')
  case Nil
  then show ?case by simp
next
  case (Cons g files)
  obtain out d1 where p: "process_entry now d g = Running (out, d1)"
    using process_entry_total by blast
  obtain outs1 d2 where r: "forEach_file now files d1 = Running (outs1, d2)"
    using forEach_file_total by blast
  have d2: "d' = d2" using Cons.prems p r by simp
  note ih = Cons.IH [OF r, unfolded d2 [symmetric]]
  show ?case
  proof (cases "g = f")
    case True
    have m1: "map_of d1 f = (if out = Deleted then None else map_of d f)"
      using process_entry_same [OF p] True by simp
    have eo: "entry_outcome now d f = Running out"
      using entry_outcome_Running [OF p] True by simp
    show ?thesis
    proof (cases "out = Deleted")
      case Del: True
      then show ?thesis using ih m1 eo \<open>g = f\<close> by simp
    next
      case NotDel: False
      then have "map_of d1 f = map_of d f" using m1 by simp
      then have "entry_outcome now d1 f = Running out"
        using entry_outcome_frame [of d1 f d now] eo by simp
      then show ?thesis using ih m1 eo NotDel \<open>g = f\<close> by simp
    qed
  next
    case False
    have "map_of d1 f = map_of d f" using process_entry_other [OF p] False by simp
    then show ?thesis using ih False entry_outcome_frame [of d1 f d now] by auto
  qed
qed

lemma fs_stat_Some:
  "fs_stat d f = (None, Some s) \<longleftrightarrow>
     (\<exists>e. map_of d f = Some e \<and> \<not> stat_denied e \<and> s = \<lparr>mtimeMs = mtime e\<rparr>)"
  by (auto simp: fs_stat_def split: option.splits)

lemma map_of_fs_touch:
  "map_of (fs_touch d name t) f =
     (if f = name then map_option (\<lambda>e. e\<lparr>mtime := t\<rparr>) (map_of d f) else map_of d f)"
  by (induction d) (auto simp: fs_touch_def)



text \<open>
  C10. In a sweep whose \<open>readdir\<close> succeeded, for an entry of the snapshot whose
  \<open>stat\<close> succeeded: \<open>unlink\<close> is called on it if and only if \<open>now - mtimeMs\<close> is
  strictly more than 3,600,000 ms, and the file is gone after the sweep if and only if
  that holds and the \<open>unlink\<close> succeeded. The age is measured from the modification
  time: after a later write at time \<open>t\<close> the same test reads \<open>now - t\<close>, whatever the
  time of the upload was.
\<close>

theorem reaper_deletes_iff_older_than_max_age:
  assumes "distinct files" and "file \<in> set files" and "fs_stat d file = (None, Some s)"
  shows "(\<exists>outs d' out.
            readdir_callback now d (None, Some files) = Running (outs, d') \<and>
            map_of outs file = Some out \<and>
            (unlink_called out \<longleftrightarrow> now - mtimeMs s > 3600000) \<and>
            (map_of d' file = None \<longleftrightarrow>
               now - mtimeMs s > 3600000 \<and> fst (fs_unlink d file) = None)) \<and>
         (\<exists>outs d' out.
            readdir_callback now (fs_touch d file t) (None, Some files) = Running (outs, d') \<and>
            map_of outs file = Some out \<and>
            (unlink_called out \<longleftrightarrow> now - t > 3600000))"
proof -
  obtain e where e: "map_of d file = Some e" "\<not> stat_denied e" "s = \<lparr>mtimeMs = mtime e\<rparr>"
    using assms(3) fs_stat_Some by blast
  have part: "\<exists>outs d' out.
            readdir_callback now dd (None, Some files) = Running (outs, d') \<and>
            map_of outs file = Some out \<and>
            (unlink_called out \<longleftrightarrow> now - mtime e' > 3600000) \<and>
            (map_of d' file = None \<longleftrightarrow>
               now - mtime e' > 3600000 \<and> fst (fs_unlink dd file) = None)"
    if e': "map_of dd file = Some e'" "\<not> stat_denied e'" for dd e'
  proof -
    obtain outs d' where r: "forEach_file now files dd = Running (outs, d')"
      using forEach_file_total by blast
    note ind = forEach_file_independent [OF assms(1) r]
    obtain out where o: "map_of outs file = Some out" "entry_outcome now dd file = Running out"
      using map_of_outs [of outs files "file" "entry_outcome now dd"] ind assms(2) by blast
    have 1: "readdir_callback now dd (None, Some files) = Running (outs, d')"
      using r by (simp add: readdir_callback_def)
    have 2: "unlink_called out \<longleftrightarrow> now - mtime e' > 3600000"
      using o(2) e' by (auto simp: entry_outcome_cases MAX_AGE_def split: if_splits)
    have 3: "map_of d' file = None \<longleftrightarrow>
               now - mtime e' > 3600000 \<and> fst (fs_unlink dd file) = None"
      using forEach_file_deletes [OF r, of "file"] assms(2) e'
      by (auto simp: entry_outcome_cases MAX_AGE_def fs_unlink_def split: if_splits)
    show ?thesis
      by (rule exI [of _ outs], rule exI [of _ d'], rule exI [of _ out]) (simp add: 1 o(1) 2 3)
  qed
  have a: "map_of (fs_touch d file t) file = Some (e\<lparr>mtime := t\<rparr>)"
    using e(1) by (simp add: map_of_fs_touch)
  have A: "\<exists>outs d' out.
            readdir_callback now d (None, Some files) = Running (outs, d') \<and>
            map_of outs file = Some out \<and>
            (unlink_called out \<longleftrightarrow> now - mtimeMs s > 3600000) \<and>
            (map_of d' file = None \<longleftrightarrow>
               now - mtimeMs s > 3600000 \<and> fst (fs_unlink d file) = None)"
    using part [OF e(1,2)] e(3) by simp
  obtain outs d' out where B:
    "readdir_callback now (fs_touch d file t) (None, Some files) = Running (outs, d')"
    "map_of outs file = Some out"
    "unlink_called out \<longleftrightarrow> now - t > 3600000"
    using part [OF a] e(2) by auto
  have "\<exists>outs d' out.
            readdir_callback now (fs_touch d file t) (None, Some files) = Running (outs, d') \<and>
            map_of outs file = Some out \<and>
            (unlink_called out \<longleftrightarrow> now - t > 3600000)"
    by (rule exI [of _ outs], rule exI [of _ d'], rule exI [of _ out]) (simp add: B)
  with A show ?thesis by (rule conjI)
qed

theorem reaper_deletes_iff_older_than_max_age_witness:
  "distinct [''a.mp4'', ''b.mp4''] \<and>
   ''a.mp4'' \<in> set [''a.mp4'', ''b.mp4''] \<and>
   fs_stat [(''a.mp4'', \<lparr>mtime = 1000, stat_denied = False, unlink_denied = False\<rparr>)] ''a.mp4''
     = (None, Some \<lparr>mtimeMs = 1000\<rparr>) \<and>
   (\<exists>outs d' out.
      readdir_callback 3601001
        [(''a.mp4'', \<lparr>mtime = 1000, stat_denied = False, unlink_denied = False\<rparr>)]
        (None, Some [''a.mp4'', ''b.mp4'']) = Running (outs, d') \<and>
      map_of outs ''a.mp4'' = Some out \<and> unlink_called out \<and> map_of d' ''a.mp4'' = None) \<and>
   (\<exists>outs d' out.
      readdir_callback 3601001
        (fs_touch [(''a.mp4'', \<lparr>mtime = 1000, stat_denied = False, unlink_denied = False\<rparr>)]
           ''a.mp4'' 5000)
        (None, Some [''a.mp4'', ''b.mp4'']) = Running (outs, d') \<and>
      map_of outs ''a.mp4'' = Some out \<and> \<not> unlink_called out)"
proof -
  let ?d = "[(''a.mp4'', \<lparr>mtime = 1000, stat_denied = False, unlink_denied = False\<rparr>)]"
  have h1: "distinct [''a.mp4'', ''b.mp4'']" by simp
  have h2: "''a.mp4'' \<in> set [''a.mp4'', ''b.mp4'']" by simp
  have h3: "fs_stat ?d ''a.mp4'' = (None, Some \<lparr>mtimeMs = 1000\<rparr>)"
    by (simp add: fs_stat_def)
  have u: "fst (fs_unlink ?d ''a.mp4'') = None" by (simp add: fs_unlink_def)
  show ?thesis
    using h1 h2 h3 u reaper_deletes_iff_older_than_max_age [OF h1 h2 h3, of 3601001 5000]
    by simp
qed

section \<open>Properties of paths\<close>

lemma split_slash_not_Nil: "split_slash s \<noteq> []"
  by (induction s) (auto split: list.splits)

lemma split_slash_append:
  "split_slash (a @ CHR ''/'' # b) = split_slash a @ split_slash b"
proof (induction a)
  case Nil
  then show ?case by simp
next
  case (Cons c a)
  then show ?case
    using split_slash_not_Nil [of a] by (cases "split_slash a") auto
qed

lemma split_slash_segment: "CHR ''/'' \<notin> set s \<Longrightarrow> split_slash s = [s]"
  by (induction s) auto

lemma split_slash_segments:
  "CHR ''/'' \<notin> set s \<Longrightarrow> list_all (\<lambda>t. CHR ''/'' \<notin> set t) segs \<Longrightarrow>
   split_slash (s @ concat (map (\<lambda>t. CHR ''/'' # t) segs)) = s # segs"
proof (induction segs arbitrary: s)
  case Nil
  then show ?case by (simp add: split_slash_segment)
next
  case (Cons t segs)
  then show ?case
    by (simp add: split_slash_append split_slash_segment)
qed

lemma split_slash_abs_path:
  assumes "list_all clean_segment segs"
  shows "split_slash (abs_path segs) = (if segs = [] then [[], []] else [] # segs)"
proof (cases segs)
  case Nil
  then show ?thesis by (simp add: abs_path_def)
next
  case (Cons t ts)
  have ns: "list_all (\<lambda>t. CHR ''/'' \<notin> set t) segs"
    using assms by (simp add: list_all_iff clean_segment_def)
  have "split_slash ([] @ concat (map (\<lambda>t. CHR ''/'' # t) segs)) = [] # segs"
    by (rule split_slash_segments) (use ns in simp_all)
  then show ?thesis using Cons by (simp add: abs_path_def)
qed

lemma normalize_segments_clean:
  "list_all clean_segment segs \<Longrightarrow> normalize_segments allowAbove res segs = res @ segs"
  by (induction segs arbitrary: res) (auto simp: clean_segment_def)

lemma join_slash_abs:
  "segs \<noteq> [] \<Longrightarrow> CHR ''/'' # join_slash segs = concat (map (\<lambda>s. CHR ''/'' # s) segs)"
  by (induction segs rule: join_slash.induct) auto

lemma join_slash_Nil: "list_all clean_segment segs \<Longrightarrow> join_slash segs = [] \<longleftrightarrow> segs = []"
  by (induction segs rule: join_slash.induct) (auto simp: clean_segment_def)

lemma abs_path_not_Nil: "abs_path segs \<noteq> []"
  by (cases segs) (auto simp: abs_path_def)

lemma hd_abs_path: "hd (abs_path segs) = CHR ''/''"
  by (cases segs) (auto simp: abs_path_def)

lemma path_join_child:
  assumes segs: "list_all clean_segment segs" and name: "clean_segment name"
  shows "path_join (abs_path segs) name = abs_path (segs @ [name])"
proof -
  let ?j = "abs_path segs @ ''/'' @ name"
  have n0: "name \<noteq> []" and nsl: "CHR ''/'' \<notin> set name"
    using name by (auto simp: clean_segment_def)
  have lastn: "last ?j \<noteq> CHR ''/''"
    using n0 nsl by (simp add: last_append) (metis last_in_set)
  have hdj: "hd ?j = CHR ''/''"
    using hd_abs_path [of segs] abs_path_not_Nil [of segs] by simp
  have sp: "split_slash ?j = split_slash (abs_path segs) @ [name]"
    using split_slash_append [of "abs_path segs" name] nsl
    by (simp add: split_slash_segment)
  have cl: "list_all clean_segment (segs @ [name])" using segs name by simp
  have nz: "normalize_segments False [] (split_slash ?j) = segs @ [name]"
  proof (cases "segs = []")
    case True
    then show ?thesis
      using sp split_slash_abs_path [OF segs] normalize_segments_clean [of "[name]" False "[]"] name
      by simp
  next
    case False
    then show ?thesis
      using sp split_slash_abs_path [OF segs] normalize_segments_clean [OF cl, of False "[]"]
      by simp
  qed
  have jn: "join_slash (segs @ [name]) \<noteq> []"
    using join_slash_Nil [OF cl] by simp
  have "path_normalize ?j = CHR ''/'' # join_slash (segs @ [name])"
    unfolding path_normalize_def Let_def using hdj lastn nz jn by simp
  also have "\<dots> = abs_path (segs @ [name])"
    using join_slash_abs [of "segs @ [name]"] by (simp add: abs_path_def)
  finally show ?thesis
    using n0 abs_path_not_Nil [of segs] by (simp add: path_join_def)
qed

lemma abs_path_snoc:
  "segs \<noteq> [] \<Longrightarrow> abs_path (segs @ [name]) = abs_path segs @ ''/'' @ name"
  by (simp add: abs_path_def)

section \<open>Properties of the extension scan\<close>

lemma loop_trailing:
  "list_all (\<lambda>c. c = CHR ''/'') ts \<Longrightarrow> matchedSlash st \<Longrightarrow>
   extname_loop (xs @ ts @ ys) (length xs + length ts) st =
   extname_loop (xs @ ts @ ys) (length xs) st"
proof (induction ts arbitrary: ys rule: rev_induct)
  case Nil
  then show ?case by simp
next
  case (snoc c ts)
  have c: "c = CHR ''/''" and ts: "list_all (\<lambda>c. c = CHR ''/'') ts"
    using snoc.prems(1) by auto
  have nth: "(xs @ (ts @ [c]) @ ys) ! (length xs + length ts) = c"
    by (simp add: nth_append)
  have "extname_loop (xs @ (ts @ [c]) @ ys) (length xs + length (ts @ [c])) st =
        extname_loop (xs @ ts @ c # ys) (length xs + length ts) st"
    using c nth snoc.prems(2) by simp
  then show ?case using snoc.IH [OF ts snoc.prems(2), of "c # ys"] by simp
qed

lemma loop_stem:
  "CHR ''/'' \<notin> set xs \<Longrightarrow> startDot st \<noteq> - 1 \<Longrightarrow> ext_end st \<noteq> - 1 \<Longrightarrow>
   extname_loop (pre @ xs @ ys) (length pre + length xs) st =
   extname_loop (pre @ xs @ ys) (length pre)
     (if xs = [] then st else st\<lparr>preDotState := (if hd xs = CHR ''.'' then 1 else - 1)\<rparr>)"
proof (induction xs arbitrary: st ys rule: rev_induct)
  case Nil
  then show ?case by simp
next
  case (snoc c xs)
  have c: "c \<noteq> CHR ''/''" and xs: "CHR ''/'' \<notin> set xs" using snoc.prems(1) by auto
  let ?st2 = "st\<lparr>preDotState := (if c = CHR ''.'' then 1 else - 1)\<rparr>"
  have same: "preDotState st = 1 \<Longrightarrow> st\<lparr>preDotState := 1\<rparr> = st"
    by (cases st) simp
  have nth: "(pre @ (xs @ [c]) @ ys) ! (length pre + length xs) = c"
    by (simp add: nth_append)
  have step: "extname_loop (pre @ (xs @ [c]) @ ys) (length pre + length (xs @ [c])) st
                = extname_loop (pre @ xs @ c # ys) (length pre + length xs) ?st2"
  proof (cases "preDotState st = 1")
    case True
    then show ?thesis
      using c snoc.prems(2,3) nth by (simp add: Let_def same [OF True])
  next
    case False
    then show ?thesis
      using c snoc.prems(2,3) nth by (simp add: Let_def)
  qed
  have "extname_loop (pre @ xs @ c # ys) (length pre + length xs) ?st2 =
        extname_loop (pre @ xs @ c # ys) (length pre)
          (if xs = [] then ?st2 else ?st2\<lparr>preDotState := (if hd xs = CHR ''.'' then 1 else - 1)\<rparr>)"
    using snoc.IH [where st = ?st2 and ys = "c # ys"] xs snoc.prems(2,3) by simp
  then show ?case using step by (cases xs) auto
qed

lemma loop_break:
  "(pre = [] \<or> last pre = CHR ''/'') \<Longrightarrow> \<not> matchedSlash st \<Longrightarrow>
   extname_loop (pre @ ys) (length pre) st = st\<lparr>startPart := (if pre = [] then startPart st else int (length pre))\<rparr>"
proof (cases pre rule: rev_cases)
  case Nil
  then show ?thesis by simp
next
  case (snoc pre' c)
  assume "pre = [] \<or> last pre = CHR ''/''" and m: "\<not> matchedSlash st"
  then have "c = CHR ''/''" using snoc by simp
  then show ?thesis using snoc m by (simp add: nth_append)
qed

lemma loop_ext:
  "CHR ''/'' \<notin> set es \<Longrightarrow> CHR ''.'' \<notin> set es \<Longrightarrow> startDot st = - 1 \<Longrightarrow>
   extname_loop (xs @ es @ ys) (length xs + length es) st =
   extname_loop (xs @ es @ ys) (length xs)
     (if es = [] \<or> ext_end st \<noteq> - 1 then st
      else st\<lparr>matchedSlash := False, ext_end := int (length xs + length es)\<rparr>)"
proof (induction es arbitrary: st ys rule: rev_induct)
  case Nil
  then show ?case by simp
next
  case (snoc c es)
  have c: "c \<noteq> CHR ''/''" "c \<noteq> CHR ''.''" and es: "CHR ''/'' \<notin> set es" "CHR ''.'' \<notin> set es"
    using snoc.prems(1,2) by auto
  let ?st1 = "(if ext_end st = - 1 then st\<lparr>matchedSlash := False, ext_end := int (length xs + length es) + 1\<rparr> else st)"
  have nth: "(xs @ (es @ [c]) @ ys) ! (length xs + length es) = c"
    by (simp add: nth_append)
  have step: "extname_loop (xs @ (es @ [c]) @ ys) (length xs + length (es @ [c])) st
                = extname_loop (xs @ es @ (c # ys)) (length xs + length es) ?st1"
    using c snoc.prems(3) nth by (simp add: Let_def)
  have sd: "startDot ?st1 = - 1" using snoc.prems(3) by simp
  show ?case
    unfolding step using snoc.IH [OF es sd, of "c # ys"]
    by (auto simp: add.commute)
qed

lemma loop_dot:
  "startDot st = - 1 \<Longrightarrow>
   extname_loop (xs @ CHR ''.'' # ys) (Suc (length xs)) st =
   extname_loop (xs @ CHR ''.'' # ys) (length xs)
     ((if ext_end st = - 1 then st\<lparr>matchedSlash := False, ext_end := int (length xs) + 1\<rparr> else st)
        \<lparr>startDot := int (length xs)\<rparr>)"
  by (simp add: Let_def)

lemma split_last_dot:
  assumes "CHR ''.'' \<in> set name"
  defines "e \<equiv> rev (takeWhile (\<lambda>c. c \<noteq> CHR ''.'') (rev name))"
  defines "stem \<equiv> take (length name - Suc (length e)) name"
  shows "name = stem @ CHR ''.'' # e \<and> CHR ''.'' \<notin> set e"
proof -
  let ?P = "\<lambda>c. c \<noteq> CHR ''.''"
  have ne: "dropWhile ?P (rev name) \<noteq> []"
    using assms(1) by (simp add: dropWhile_eq_Nil_conv)
  then obtain r where r: "dropWhile ?P (rev name) = CHR ''.'' # r"
    using hd_dropWhile [OF ne] by (cases "dropWhile ?P (rev name)") auto
  have "rev name = rev e @ CHR ''.'' # r"
    using takeWhile_dropWhile_id [of ?P "rev name"] r by (simp add: e_def)
  then have n: "name = rev r @ CHR ''.'' # e"
    by (metis rev_append rev_rev_ident rev.simps(2) append.assoc append_Cons append_Nil)
  have l: "length name - Suc (length e) = length r"
    using arg_cong [OF n, of length] by simp
  have "stem = rev r" unfolding stem_def l by (subst n) simp
  moreover have "CHR ''.'' \<notin> set e"
    unfolding e_def using set_takeWhileD [of "CHR ''.''" ?P "rev name"] by auto
  ultimately show ?thesis using n by simp
qed

lemma loop_trailing_at:
  assumes "p = xs @ ts @ ys" and "n = length xs + length ts" and "m = length xs"
    and "list_all (\<lambda>c. c = CHR ''/'') ts" and "matchedSlash st"
  shows "extname_loop p n st = extname_loop p m st"
  unfolding assms(1-3) by (rule loop_trailing [OF assms(4,5)])

lemma loop_ext_at:
  assumes "p = xs @ es @ ys" and "n = length xs + length es" and "m = length xs"
    and "CHR ''/'' \<notin> set es" and "CHR ''.'' \<notin> set es" and "startDot st = - 1"
    and "st' = (if es = [] \<or> ext_end st \<noteq> - 1 then st
                else st\<lparr>matchedSlash := False, ext_end := int n\<rparr>)"
  shows "extname_loop p n st = extname_loop p m st'"
  unfolding assms(1-3,7) by (rule loop_ext [OF assms(4-6)])

lemma loop_dot_at:
  assumes "p = xs @ CHR ''.'' # ys" and "n = Suc (length xs)" and "m = length xs"
    and "startDot st = - 1"
    and "st' = (if ext_end st = - 1 then st\<lparr>matchedSlash := False, ext_end := int m + 1\<rparr>
                else st)\<lparr>startDot := int m\<rparr>"
  shows "extname_loop p n st = extname_loop p m st'"
  unfolding assms(1-3,5) by (rule loop_dot [OF assms(4)])

lemma loop_stem_at:
  assumes "p = pre @ xs @ ys" and "n = length pre + length xs" and "m = length pre"
    and "CHR ''/'' \<notin> set xs" and "startDot st \<noteq> - 1" and "ext_end st \<noteq> - 1"
    and "st' = (if xs = [] then st
                else st\<lparr>preDotState := (if hd xs = CHR ''.'' then 1 else - 1)\<rparr>)"
  shows "extname_loop p n st = extname_loop p m st'"
  unfolding assms(1-3,7) by (rule loop_stem [OF assms(4-6)])

lemma loop_break_at:
  assumes "p = pre @ ys" and "n = length pre"
    and "pre = [] \<or> last pre = CHR ''/''" and "\<not> matchedSlash st"
  shows "extname_loop p n st =
           st\<lparr>startPart := (if pre = [] then startPart st else int (length pre))\<rparr>"
  unfolding assms(1,2) by (rule loop_break [OF assms(3,4)])

lemma extname_state_dot:
  assumes pre: "pre = [] \<or> last pre = CHR ''/''"
    and stem: "CHR ''/'' \<notin> set stem" and e: "CHR ''/'' \<notin> set e" "CHR ''.'' \<notin> set e"
    and ts: "list_all (\<lambda>c. c = CHR ''/'') ts"
    and p: "p = pre @ stem @ CHR ''.'' # e @ ts"
  shows "extname_loop p (length p) extname_init =
         \<lparr>startDot = int (length pre + length stem), startPart = int (length pre),
          ext_end = int (length pre + length stem) + 1 + int (length e), matchedSlash = False,
          preDotState = (if stem = [] then 0 else if hd stem = CHR ''.'' then 1 else - 1)\<rparr>"
proof -
  let ?n = "length pre + length stem"
  let ?sa = "(if e = [] then extname_init
      else extname_init\<lparr>matchedSlash := False, ext_end := int (Suc ?n + length e)\<rparr>)"
  let ?sb = "\<lparr>startDot = int ?n, startPart = 0,
            ext_end = int ?n + 1 + int (length e), matchedSlash = False,
            preDotState = 0\<rparr>"
  let ?sc = "(if stem = [] then ?sb
             else ?sb\<lparr>preDotState := (if hd stem = CHR ''.'' then 1 else - 1)\<rparr>)"
  have "extname_loop p (length p) extname_init =
        extname_loop p (Suc ?n + length e) extname_init"
    by (rule loop_trailing_at [where xs = "pre @ stem @ CHR ''.'' # e" and ts = ts and ys = "[]"])
       (simp_all add: p ts extname_init_def)
  also have "\<dots> = extname_loop p (Suc ?n) ?sa"
    by (rule loop_ext_at [where xs = "pre @ stem @ [CHR ''.'']" and es = e and ys = ts])
       (simp_all add: p e extname_init_def)
  also have "\<dots> = extname_loop p ?n ?sb"
    by (rule loop_dot_at [where xs = "pre @ stem" and ys = "e @ ts"])
       (simp_all add: p extname_init_def)
  also have "\<dots> = extname_loop p (length pre) ?sc"
    by (rule loop_stem_at [where pre = pre and xs = stem and ys = "CHR ''.'' # e @ ts"])
       (simp_all add: p stem)
  also have "\<dots> = ?sc\<lparr>startPart := (if pre = [] then startPart ?sc else int (length pre))\<rparr>"
    by (rule loop_break_at [where pre = pre and ys = "stem @ CHR ''.'' # e @ ts"])
       (simp_all add: p pre)
  finally show ?thesis by simp
qed

lemma extname_state_no_dot:
  assumes pre: "pre = [] \<or> last pre = CHR ''/''"
    and base: "CHR ''/'' \<notin> set base" "CHR ''.'' \<notin> set base"
    and ne: "base = [] \<longrightarrow> pre = []"
    and ts: "list_all (\<lambda>c. c = CHR ''/'') ts"
    and p: "p = pre @ base @ ts"
  shows "startDot (extname_loop p (length p) extname_init) = - 1"
proof -
  let ?sa = "(if base = [] then extname_init
      else extname_init\<lparr>matchedSlash := False, ext_end := int (length pre + length base)\<rparr>)"
  have "extname_loop p (length p) extname_init =
           extname_loop p (length pre + length base) extname_init"
    by (rule loop_trailing_at [where xs = "pre @ base" and ts = ts and ys = "[]"])
       (simp_all add: p ts extname_init_def)
  also have "\<dots> = extname_loop p (length pre) ?sa"
    by (rule loop_ext_at [where xs = pre and es = base and ys = ts])
       (simp_all add: p base extname_init_def)
  finally have a: "extname_loop p (length p) extname_init = extname_loop p (length pre) ?sa" .
  show ?thesis
  proof (cases "base = []")
    case True
    then have "pre = []" using ne by simp
    then show ?thesis unfolding a using True by (simp add: extname_init_def)
  next
    case False
    have "extname_loop p (length pre) ?sa =
          ?sa\<lparr>startPart := (if pre = [] then startPart ?sa else int (length pre))\<rparr>"
      by (rule loop_break_at [where pre = pre and ys = "base @ ts"])
         (simp_all add: p pre False)
    then show ?thesis unfolding a using False by (simp add: extname_init_def)
  qed
qed

lemma extname_component:
  assumes pre: "pre = [] \<or> last pre = CHR ''/''"
    and base: "CHR ''/'' \<notin> set base"
    and ne: "base = [] \<longrightarrow> pre = []"
    and ts: "list_all (\<lambda>c. c = CHR ''/'') ts"
  shows "path_extname (pre @ base @ ts) =
           (case declared_extension base of None \<Rightarrow> [] | Some ext \<Rightarrow> ext)"
proof (cases "CHR ''.'' \<in> set base")
  case False
  then show ?thesis
    using extname_state_no_dot [OF pre base _ ne ts refl]
    by (simp add: path_extname_def declared_extension_def Let_def)
next
  case True
  define e where "e = rev (takeWhile (\<lambda>c. c \<noteq> CHR ''.'') (rev base))"
  define stem where "stem = take (length base - Suc (length e)) base"
  have n: "base = stem @ CHR ''.'' # e" and ed: "CHR ''.'' \<notin> set e"
    using split_last_dot [OF True] by (simp_all add: e_def stem_def)
  have sl: "CHR ''/'' \<notin> set stem" "CHR ''/'' \<notin> set e"
    using base by (subst (asm) n, simp)+
  have dd: "base = ''..'' \<longleftrightarrow> stem = ''.'' \<and> e = []"
  proof
    assume b: "base = ''..''"
    then have "e = []" by (simp add: e_def)
    then show "stem = ''.'' \<and> e = []" using n b by simp
  next
    assume "stem = ''.'' \<and> e = []"
    then show "base = ''..''" using n by simp
  qed
  have hd1: "hd stem = CHR ''.'' \<and> length stem = 1 \<longleftrightarrow> stem = ''.''"
    by (cases stem) auto
  have st: "extname_loop (pre @ base @ ts) (length (pre @ base @ ts)) extname_init =
         \<lparr>startDot = int (length pre + length stem), startPart = int (length pre),
          ext_end = int (length pre + length stem) + 1 + int (length e), matchedSlash = False,
          preDotState = (if stem = [] then 0 else if hd stem = CHR ''.'' then 1 else - 1)\<rparr>"
    by (rule extname_state_dot [OF pre sl ed ts]) (simp add: n)
  have dr: "drop (length pre + length stem) (pre @ base @ ts) = CHR ''.'' # e @ ts"
    by (simp add: n)
  have "path_extname (pre @ base @ ts) =
          (if stem = [] \<or> (stem = ''.'' \<and> e = []) then [] else CHR ''.'' # e)"
    unfolding path_extname_def st Let_def using hd1
    by (auto simp: nat_add_distrib dr simp del: drop_append)
  moreover have "declared_extension base =
       (if stem = [] \<or> base = ''..'' then None else Some (CHR ''.'' # e))"
    using True by (simp add: declared_extension_def Let_def e_def stem_def)
  ultimately show ?thesis using dd by simp
qed

lemma path_decompose:
  "\<exists>pre ts. p = pre @ base_name p @ ts \<and> (pre = [] \<or> last pre = CHR ''/'') \<and>
     CHR ''/'' \<notin> set (base_name p) \<and> (base_name p = [] \<longrightarrow> pre = []) \<and>
     list_all (\<lambda>c. c = CHR ''/'') ts"
proof -
  let ?S = "\<lambda>c. c = CHR ''/''" and ?N = "\<lambda>c. c \<noteq> CHR ''/''"
  define t where "t = takeWhile ?S (rev p)"
  define r1 where "r1 = dropWhile ?S (rev p)"
  define b where "b = takeWhile ?N r1"
  define r2 where "r2 = dropWhile ?N r1"
  have 1: "rev p = t @ b @ r2"
    unfolding t_def b_def r2_def r1_def by simp
  then have 2: "p = rev r2 @ rev b @ rev t"
    by (metis rev_append rev_rev_ident append.assoc)
  have bn: "base_name p = rev b"
    by (simp add: base_name_def b_def r1_def)
  have a: "rev r2 = [] \<or> last (rev r2) = CHR ''/''"
  proof (cases r2)
    case Nil
    then show ?thesis by simp
  next
    case (Cons c cs)
    then have "r2 \<noteq> []" by simp
    then have "\<not> ?N (hd r2)" unfolding r2_def by (rule hd_dropWhile)
    then show ?thesis using Cons by (simp add: last_rev)
  qed
  have c: "CHR ''/'' \<notin> set (rev b)"
    unfolding b_def using set_takeWhileD [of "CHR ''/''" ?N r1] by auto
  have d: "rev b = [] \<longrightarrow> rev r2 = []"
  proof
    assume "rev b = []"
    then have "b = []" by simp
    then have "r1 = [] \<or> \<not> ?N (hd r1)"
      unfolding b_def by (cases r1) (auto split: if_splits)
    moreover have "r1 \<noteq> [] \<Longrightarrow> \<not> ?S (hd r1)"
      unfolding r1_def by (rule hd_dropWhile)
    ultimately have "r1 = []" by auto
    then show "rev r2 = []" by (simp add: r2_def)
  qed
  have e: "list_all ?S (rev t)"
    unfolding t_def using set_takeWhileD [of _ ?S "rev p"] by (auto simp: list_all_iff)
  show ?thesis
    by (rule exI [of _ "rev r2"], rule exI [of _ "rev t"]) (use 2 bn a c d e in simp)
qed

lemma extname_base_name:
  "path_extname p = (case declared_extension (base_name p) of None \<Rightarrow> [] | Some ext \<Rightarrow> ext)"
proof -
  obtain pre ts where d: "p = pre @ base_name p @ ts" "pre = [] \<or> last pre = CHR ''/''"
     "CHR ''/'' \<notin> set (base_name p)" "base_name p = [] \<longrightarrow> pre = []"
     "list_all (\<lambda>c. c = CHR ''/'') ts"
    using path_decompose [of p] by blast
  show ?thesis
    by (subst d(1)) (rule extname_component [OF d(2-5)])
qed

lemma base_name_plain: "CHR ''/'' \<notin> set name \<Longrightarrow> base_name name = name"
proof -
  assume a: "CHR ''/'' \<notin> set name"
  have d: "dropWhile (\<lambda>c. c = CHR ''/'') (rev name) = rev name"
  proof (cases "rev name")
    case Nil
    then show ?thesis by simp
  next
    case (Cons c cs)
    then have "c \<in> set name" by (metis list.set_intros(1) set_rev)
    then show ?thesis using a Cons by auto
  qed
  have t: "takeWhile (\<lambda>c. c \<noteq> CHR ''/'') (rev name) = rev name"
    by (rule takeWhile_eq_all_conv [THEN iffD2]) (use a in auto)
  show ?thesis unfolding base_name_def d t by simp
qed

section \<open>Properties of identifiers\<close>

lemma length_byteToHex: "length (byteToHex b) = 2"
  by (simp add: byteToHex_def)

lemma length_uuidv4: "length (uuidv4 rnds) = 36"
  by (simp add: uuidv4_def unsafeStringify_def length_byteToHex)

lemma hex_digit_char: "n < 16 \<Longrightarrow> uuid_char (hex_digit n)"
proof -
  assume n: "n < 16"
  have "list_all (\<lambda>k. uuid_char (hex_digit k)) [0..<16]"
    by code_simp
  then show ?thesis using n by (simp add: list_all_iff)
qed

lemma low_nibble: "unat ((b :: 8 word) AND 15) < 16"
proof -
  have "unat (b AND 15) \<le> unat (15 :: 8 word)"
    by (rule word_and_le1 [THEN word_le_nat_alt [THEN iffD1]])
  then show ?thesis by simp
qed

lemma high_nibble: "unat (drop_bit 4 (b :: 8 word)) < 16"
proof -
  have "unat b < 256" using unsigned_less [of b, where 'a = nat] by simp
  moreover have "unat (drop_bit 4 b) = drop_bit 4 (unat b)"
    by (rule unat_drop_bit_eq)
  moreover have "drop_bit 4 (unat b) = unat b div 2 ^ 4"
    by (rule drop_bit_eq_div)
  ultimately show ?thesis by simp
qed

lemma byteToHex_chars: "list_all uuid_char (byteToHex b)"
  by (simp add: byteToHex_def hex_digit_char low_nibble high_nibble)

lemma uuidv4_chars: "list_all uuid_char (uuidv4 rnds)"
  by (simp add: uuidv4_def unsafeStringify_def byteToHex_chars uuid_char_def)

section \<open>Expiry of an asset\<close>

lemma uploadDir_abs:
  "list_all clean_segment segs \<Longrightarrow> uploadDir (abs_path segs) = abs_path (segs @ [''uploads''])"
  by (simp add: uploadDir_def path_join_child clean_segment_def)

lemma viewer_status:
  assumes segs: "list_all clean_segment segs" and f: "clean_segment f"
    and root: "root = uploadDir (abs_path segs)"
  shows "get_v (existsSync root d others) root f =
           (if map_of d f = None \<and> root @ ''/'' @ f \<notin> set others then (404, ExpiredPage)
            else (200, ViewerPage (''/uploads/'' @ f)))"
proof -
  have r: "root = abs_path (segs @ [''uploads''])"
    using root uploadDir_abs [OF segs] by simp
  have cl: "list_all clean_segment (segs @ [''uploads''])"
    using segs by (simp add: clean_segment_def)
  have j: "path_join root f = root @ ''/'' @ f"
    unfolding r using path_join_child [OF cl f] abs_path_snoc [of "segs @ [''uploads'']" f]
    by simp
  have ne: "root @ ''/'' @ f \<noteq> root" by simp
  have mem: "root @ ''/'' @ f \<in> set (map (\<lambda>e. root @ ''/'' @ fst e) d) \<longleftrightarrow> map_of d f \<noteq> None"
    by (auto simp: map_of_eq_None_iff image_iff)
  show ?thesis
    using ne mem by (simp add: get_v_def j existsSync_def Let_def del: append_eq_append_conv)
qed

lemma forEach_file_keeps:
  assumes "map_of d f = Some e" and "now - mtime e \<le> MAX_AGE"
    and "forEach_file now files d = Running (outs, d')"
  shows "map_of d' f = Some e"
proof -
  have "entry_outcome now d f \<noteq> Running Deleted"
    using assms(1,2) by (simp add: entry_outcome_cases)
  then have "map_of d' f \<noteq> None"
    using forEach_file_deletes [OF assms(3), of f] assms(1) by simp
  moreover have "map_of d' f = None \<or> map_of d' f = map_of d f"
    using assms(3)
  proof (induction files arbitrary: d outs)
    case Nil
    then show ?case by simp
  next
    case (Cons g files)
    obtain out d1 where p: "process_entry now d g = Running (out, d1)"
      using process_entry_total by blast
    obtain outs1 d2 where r: "forEach_file now files d1 = Running (outs1, d2)"
      using forEach_file_total by blast
    have d2: "d' = d2" using Cons.prems p r by simp
    have "map_of d1 f = None \<or> map_of d1 f = map_of d f"
      using process_entry_same [OF p] process_entry_other [OF p, of f] by (cases "f = g") auto
    moreover have "map_of d' f = None \<or> map_of d' f = map_of d1 f"
      using Cons.IH [OF r [folded d2]] .
    moreover have "map_of d1 f = None \<Longrightarrow> map_of d' f = None"
      using forEach_file_deletes [OF r [folded d2], of f] by simp
    ultimately show ?case by auto
  qed
  ultimately show ?thesis using assms(1) by auto
qed

lemma readdir_callback_keeps:
  assumes "map_of d f = Some e" and "now - mtime e \<le> MAX_AGE"
    and "readdir_callback now d rd = Running (outs, d')"
  shows "map_of d' f = Some e"
proof (cases rd)
  case (Pair err files)
  show ?thesis
  proof (cases "err = None \<and> files \<noteq> None")
    case True
    then obtain fs where "files = Some fs" by auto
    then have "forEach_file now fs d = Running (outs, d')"
      using assms(3) Pair True by (simp add: readdir_callback_def)
    then show ?thesis using forEach_file_keeps [OF assms(1,2)] by blast
  next
    case False
    then have "d' = d"
      using assms(3) Pair by (auto simp: readdir_callback_def split: option.splits if_splits)
    then show ?thesis using assms(1) by simp
  qed
qed

lemma readdir_callback_absent:
  assumes "map_of d f = None" and "readdir_callback now d rd = Running (outs, d')"
  shows "map_of d' f = None"
proof (cases rd)
  case (Pair err files)
  show ?thesis
  proof (cases "err = None \<and> files \<noteq> None")
    case True
    then obtain fs where "files = Some fs" by auto
    then have "forEach_file now fs d = Running (outs, d')"
      using assms(2) Pair True by (simp add: readdir_callback_def)
    then show ?thesis using forEach_file_deletes [of now fs d outs d' f] assms(1) by simp
  next
    case False
    then have "d' = d"
      using assms(2) Pair by (auto simp: readdir_callback_def split: option.splits if_splits)
    then show ?thesis using assms(1) by simp
  qed
qed

lemma ticks_keep:
  assumes "map_of d f = Some e"
    and "list_all (\<lambda>t. fst t \<le> mtime e + MAX_AGE \<and> node_contract (snd t)) ticks"
  shows "\<exists>d'. setInterval_ticks ticks d = Running d' \<and> map_of d' f = Some e"
  using assms
proof (induction ticks arbitrary: d)
  case Nil
  then show ?case by simp
next
  case (Cons t ticks)
  obtain now rd where t: "t = (now, rd)" by (cases t)
  have nc: "node_contract rd" and le: "now - mtime e \<le> MAX_AGE"
    using Cons.prems(2) t by auto
  obtain outs d1 where r: "readdir_callback now d rd = Running (outs, d1)"
    using readdir_callback_total [OF nc] by blast
  have "map_of d1 f = Some e"
    using readdir_callback_keeps [OF Cons.prems(1) le r] .
  then obtain d2 where "setInterval_ticks ticks d1 = Running d2 \<and> map_of d2 f = Some e"
    using Cons.IH Cons.prems(2) by auto
  then show ?case using t r by simp
qed

lemma ticks_absent:
  assumes "map_of d f = None" and "list_all (\<lambda>t. node_contract (snd t)) ticks"
  shows "\<exists>d'. setInterval_ticks ticks d = Running d' \<and> map_of d' f = None"
  using assms
proof (induction ticks arbitrary: d)
  case Nil
  then show ?case by simp
next
  case (Cons t ticks)
  obtain now rd where t: "t = (now, rd)" by (cases t)
  have nc: "node_contract rd" using Cons.prems(2) t by auto
  obtain outs d1 where r: "readdir_callback now d rd = Running (outs, d1)"
    using readdir_callback_total [OF nc] by blast
  have "map_of d1 f = None"
    using readdir_callback_absent [OF Cons.prems(1) r] .
  then obtain d2 where "setInterval_ticks ticks d1 = Running d2 \<and> map_of d2 f = None"
    using Cons.IH Cons.prems(2) by auto
  then show ?case using t r by simp
qed

lemma sweep_deletes:
  assumes "map_of d f = Some e" and "\<not> stat_denied e" and "\<not> unlink_denied e"
    and "mtime e + MAX_AGE < now" and "f \<in> set files"
  shows "\<exists>outs d'. readdir_callback now d (None, Some files) = Running (outs, d') \<and>
           map_of d' f = None"
proof -
  obtain outs d' where r: "forEach_file now files d = Running (outs, d')"
    using forEach_file_total by blast
  have "entry_outcome now d f = Running Deleted"
    using assms(1-4) by (simp add: entry_outcome_cases)
  then have "map_of d' f = None"
    using forEach_file_deletes [OF r, of f] assms(5) by simp
  then show ?thesis using r by (simp add: readdir_callback_def)
qed

lemma next_tick_within_interval:
  assumes "start \<le> x"
  shows "\<exists>k. 0 < k \<and> x < tick_time start k \<and> tick_time start k \<le> x + CLEANUP_INTERVAL"
proof -
  define q where "q = (x - start) div 900000"
  have q0: "0 \<le> q" using assms by (simp add: q_def)
  have m: "0 \<le> (x - start) mod 900000" "(x - start) mod 900000 < 900000"
    by simp_all
  have eq: "x - start = q * 900000 + (x - start) mod 900000"
    unfolding q_def by simp
  have lo: "q * 900000 \<le> x - start" using eq m(1) by linarith
  have hi: "x - start < (q + 1) * 900000" using eq m(2) by (simp add: algebra_simps)
  have k: "int (nat q + 1) = q + 1" using q0 by simp
  have "tick_time start (nat q + 1) = start + (q + 1) * 900000"
    unfolding tick_time_def CLEANUP_INTERVAL_def k by simp
  then have "x < tick_time start (nat q + 1) \<and> tick_time start (nat q + 1) \<le> x + CLEANUP_INTERVAL"
    using lo hi by (simp add: CLEANUP_INTERVAL_def algebra_simps)
  then show ?thesis by (intro exI [of _ "nat q + 1"]) simp
qed

lemma uploadDir_srv: "uploadDir ''/srv/app'' = ''/srv/app/uploads''"
  by (simp add: uploadDir_def path_join_def path_normalize_def)

text \<open>
  C3, as the claim states it, fails at the boundary: a sweep that starts exactly at
  \<open>T + MAX_AGE\<close> computes an age of exactly \<open>MAX_AGE\<close>, which is not more than
  \<open>MAX_AGE\<close>, and keeps the file; the read after that sweep still finds the asset.
\<close>

theorem sweep_at_ttl_keeps_asset:
  "setInterval_ticks
     [(3601000, fs_readdir [(''a.mp4'', \<lparr>mtime = 1000, stat_denied = False, unlink_denied = False\<rparr>)])]
     [(''a.mp4'', \<lparr>mtime = 1000, stat_denied = False, unlink_denied = False\<rparr>)]
   = Running [(''a.mp4'', \<lparr>mtime = 1000, stat_denied = False, unlink_denied = False\<rparr>)] \<and>
   get_v (existsSync (uploadDir ''/srv/app'')
            [(''a.mp4'', \<lparr>mtime = 1000, stat_denied = False, unlink_denied = False\<rparr>)] [])
     (uploadDir ''/srv/app'') ''a.mp4'' = (200, ViewerPage ''/uploads/a.mp4'')"
  by (simp add: fs_readdir_def readdir_callback_def process_entry_cases MAX_AGE_def
      uploadDir_srv get_v_def existsSync_def path_join_def path_normalize_def)

text \<open>
  C3, amended. For an asset whose file was last written at time \<open>T\<close>: after any run
  of sweeps that all start at or before \<open>T + 3,600,000\<close> the viewer route answers 200
  for it; once a sweep that starts strictly later than \<open>T + 3,600,000\<close>, whose snapshot
  holds the file and on which \<open>stat\<close> and \<open>unlink\<close> succeed, has run, the viewer route
  answers 404, and still does after any later sweeps; and with ticks exactly \<open>CLEANUP_INTERVAL\<close>
  apart, a tick falls later than \<open>T + 3,600,000\<close> and at most 900,000 ms later.
\<close>

theorem ttl_expiry_after_max_age:
  assumes segs: "list_all clean_segment segs" and f: "clean_segment f"
    and root: "root = uploadDir (abs_path segs)"
    and others: "root @ ''/'' @ f \<notin> set others"
    and asset: "map_of d f = Some e" and T: "mtime e = T"
  shows "(list_all (\<lambda>t. fst t \<le> T + 3600000 \<and> node_contract (snd t)) ticks \<longrightarrow>
            (\<exists>d'. setInterval_ticks ticks d = Running d' \<and>
               fst (get_v (existsSync root d' others) root f) = 200)) \<and>
         (\<not> stat_denied e \<and> \<not> unlink_denied e \<and> T + 3600000 < now \<and> f \<in> set files \<and>
          list_all (\<lambda>t. node_contract (snd t)) later \<longrightarrow>
            (\<exists>d'. setInterval_ticks ((now, (None, Some files)) # later) d = Running d' \<and>
               fst (get_v (existsSync root d' others) root f) = 404)) \<and>
         (start \<le> T + 3600000 \<longrightarrow>
            (\<exists>k. 0 < k \<and> T + 3600000 < tick_time start k \<and>
               tick_time start k \<le> T + 3600000 + 900000))"
proof (intro conjI impI)
  assume "list_all (\<lambda>t. fst t \<le> T + 3600000 \<and> node_contract (snd t)) ticks"
  then have "list_all (\<lambda>t. fst t \<le> mtime e + MAX_AGE \<and> node_contract (snd t)) ticks"
    using T by (simp add: MAX_AGE_def)
  then obtain d' where d': "setInterval_ticks ticks d = Running d'" "map_of d' f = Some e"
    using ticks_keep [OF asset] by blast
  have "fst (get_v (existsSync root d' others) root f) = 200"
    using viewer_status [OF segs f root, of d' others] d'(2) by simp
  then show "\<exists>d'. setInterval_ticks ticks d = Running d' \<and>
               fst (get_v (existsSync root d' others) root f) = 200"
    using d'(1) by blast
next
  assume a: "\<not> stat_denied e \<and> \<not> unlink_denied e \<and> T + 3600000 < now \<and> f \<in> set files \<and>
          list_all (\<lambda>t. node_contract (snd t)) later"
  then have "mtime e + MAX_AGE < now" using T by (simp add: MAX_AGE_def)
  then obtain outs d1 where
    r: "readdir_callback now d (None, Some files) = Running (outs, d1)" "map_of d1 f = None"
    using sweep_deletes [OF asset, of now files] a by blast
  obtain d2 where d2: "setInterval_ticks later d1 = Running d2" "map_of d2 f = None"
    using ticks_absent [OF r(2), of later] a by blast
  have "fst (get_v (existsSync root d2 others) root f) = 404"
    using viewer_status [OF segs f root, of d2 others] d2(2) others by simp
  then show "\<exists>d'. setInterval_ticks ((now, (None, Some files)) # later) d = Running d' \<and>
               fst (get_v (existsSync root d' others) root f) = 404"
    using r(1) d2(1) by simp
next
  assume "start \<le> T + 3600000"
  then show "\<exists>k. 0 < k \<and> T + 3600000 < tick_time start k \<and>
               tick_time start k \<le> T + 3600000 + 900000"
    using next_tick_within_interval [of start "T + 3600000"]
    by (simp add: CLEANUP_INTERVAL_def)
qed

theorem ttl_expiry_after_max_age_witness:
  "list_all clean_segment [''srv'', ''app''] \<and> clean_segment ''a.mp4'' \<and>
   map_of [(''a.mp4'', \<lparr>mtime = 1000, stat_denied = False, unlink_denied = False\<rparr>)] ''a.mp4''
     = Some \<lparr>mtime = 1000, stat_denied = False, unlink_denied = False\<rparr> \<and>
   (\<exists>d'. setInterval_ticks
           [(3601000, fs_readdir
               [(''a.mp4'', \<lparr>mtime = 1000, stat_denied = False, unlink_denied = False\<rparr>)])]
           [(''a.mp4'', \<lparr>mtime = 1000, stat_denied = False, unlink_denied = False\<rparr>)]
           = Running d' \<and>
         fst (get_v (existsSync (uploadDir (abs_path [''srv'', ''app''])) d' [])
                (uploadDir (abs_path [''srv'', ''app''])) ''a.mp4'') = 200) \<and>
   (\<exists>d'. setInterval_ticks [(3601001, (None, Some [''a.mp4'']))]
           [(''a.mp4'', \<lparr>mtime = 1000, stat_denied = False, unlink_denied = False\<rparr>)]
           = Running d' \<and>
         fst (get_v (existsSync (uploadDir (abs_path [''srv'', ''app''])) d' [])
                (uploadDir (abs_path [''srv'', ''app''])) ''a.mp4'') = 404) \<and>
   (\<exists>k. 0 < k \<and> 1000 + 3600000 < tick_time 0 k \<and>
         tick_time 0 k \<le> 1000 + 3600000 + 900000)"
proof -
  let ?e = "\<lparr>mtime = 1000, stat_denied = False, unlink_denied = False\<rparr>"
  let ?d = "[(''a.mp4'', ?e)]"
  have h1: "list_all clean_segment [''srv'', ''app'']" by (simp add: clean_segment_def)
  have h2: "clean_segment ''a.mp4''" by (simp add: clean_segment_def)
  have h4: "uploadDir (abs_path [''srv'', ''app'']) @ ''/'' @ ''a.mp4'' \<notin> set []" by simp
  have h5: "map_of ?d ''a.mp4'' = Some ?e" by simp
  have h6: "mtime ?e = 1000" by simp
  show ?thesis
    using h1 h2 h5
      ttl_expiry_after_max_age [OF h1 h2 refl h4 h5 h6,
        of "[(3601000, fs_readdir ?d)]" 3601001 "[''a.mp4'']" "[]" 0]
    by (simp add: node_contract_def fs_readdir_def)
qed

section \<open>Properties of stored names\<close>

lemma declared_extension_Some:
  assumes "declared_extension name = Some ext"
  shows "suffix ext name \<and> hd ext = CHR ''.'' \<and> CHR ''.'' \<notin> set (tl ext) \<and> ext \<noteq> []"
proof -
  have d: "CHR ''.'' \<in> set name"
    using assms by (auto simp: declared_extension_def split: if_splits)
  define e where "e = rev (takeWhile (\<lambda>c. c \<noteq> CHR ''.'') (rev name))"
  define stem where "stem = take (length name - Suc (length e)) name"
  have n: "name = stem @ CHR ''.'' # e" and ed: "CHR ''.'' \<notin> set e"
    using split_last_dot [OF d] by (simp_all add: e_def stem_def)
  have "ext = CHR ''.'' # e"
    using assms d by (auto simp: declared_extension_def Let_def e_def split: if_splits)
  then show ?thesis using n ed by (auto simp: suffix_def)
qed

lemma base_name_no_slash: "CHR ''/'' \<notin> set (base_name p)"
  using path_decompose [of p] by blast

lemma filename_cb_declared:
  "filename_cb uuid file =
     uuid @ (case declared_extension (base_name (originalname file)) of
               None \<Rightarrow> ''.mp4'' | Some ext \<Rightarrow> ext)"
  using declared_extension_Some [of "base_name (originalname file)"]
  by (auto simp: filename_cb_def extname_base_name split: option.splits)

lemma uuid_no_slash: "CHR ''/'' \<notin> set (uuidv4 rnds)"
  using uuidv4_chars [of rnds] by (auto simp: list_all_iff uuid_char_def)

lemma stored_name_clean:
  "clean_segment (filename_cb (uuidv4 rnds) file) \<and>
   36 < length (filename_cb (uuidv4 rnds) file)"
proof -
  let ?x = "(case declared_extension (base_name (originalname file)) of
               None \<Rightarrow> ''.mp4'' | Some ext \<Rightarrow> ext)"
  have x: "?x \<noteq> [] \<and> CHR ''/'' \<notin> set ?x"
  proof (cases "declared_extension (base_name (originalname file))")
    case None
    then show ?thesis by simp
  next
    case (Some ext)
    then have "suffix ext (base_name (originalname file))" "ext \<noteq> []"
      using declared_extension_Some by blast+
    then show ?thesis
      using Some base_name_no_slash [of "originalname file"] by (auto simp: suffix_def)
  qed
  have n: "filename_cb (uuidv4 rnds) file = uuidv4 rnds @ ?x"
    by (rule filename_cb_declared)
  have len: "36 < length (filename_cb (uuidv4 rnds) file)"
    unfolding n using x by (simp add: length_uuidv4)
  then have "filename_cb (uuidv4 rnds) file \<noteq> ''.''" "filename_cb (uuidv4 rnds) file \<noteq> ''..''"
    "filename_cb (uuidv4 rnds) file \<noteq> []"
    by auto
  moreover have "CHR ''/'' \<notin> set (filename_cb (uuidv4 rnds) file)"
    unfolding n using x uuid_no_slash by simp
  ultimately show ?thesis using len by (simp add: clean_segment_def)
qed

text \<open>
  Where paths stay inside the upload directory: the path every stored file is written
  to, whatever the original file name is, and the path the viewer route tests when the
  id is a single segment other than \<open>.\<close> and \<open>..\<close>.
\<close>

lemma path_join_upload_child:
  assumes segs: "list_all clean_segment segs" and f: "clean_segment f"
  shows "path_join (uploadDir (abs_path segs)) f = uploadDir (abs_path segs) @ ''/'' @ f"
proof -
  have cl: "list_all clean_segment (segs @ [''uploads''])"
    using segs by (simp add: clean_segment_def)
  show ?thesis
    unfolding uploadDir_abs [OF segs]
    using path_join_child [OF cl f] abs_path_snoc [of "segs @ [''uploads'']" f] by simp
qed

lemma stored_path_inside_upload_root:
  assumes "list_all clean_segment segs"
  shows "inside_dir (uploadDir (abs_path segs))
           (path_join (destination_cb (abs_path segs)) (filename_cb (uuidv4 rnds) p))"
proof -
  have "clean_segment (filename_cb (uuidv4 rnds) p)"
    using stored_name_clean [of rnds p] by simp
  then show ?thesis
    using path_join_upload_child [OF assms]
    by (simp add: destination_cb_def inside_dir_def)
qed

lemma viewer_path_inside_upload_root:
  assumes "list_all clean_segment segs" and "clean_segment ident"
  shows "inside_dir (uploadDir (abs_path segs)) (path_join (uploadDir (abs_path segs)) ident)"
  using path_join_upload_child [OF assms] by (simp add: inside_dir_def)

section \<open>The upload route and the viewer route\<close>

lemma uuid_zero:
  "uuidv4 [0, 0, 0, 0, 0, 0, 0, 0, 0, 0, 0, 0, 0, 0, 0, 0] = ''00000000-0000-4000-8000-000000000000''"
  by (simp add: uuidv4_def unsafeStringify_def byteToHex_def hex_digit_def)

lemma extname_mov: "path_extname ''clip.mov'' = ''.mov''"
  by (simp add: extname_base_name base_name_def declared_extension_def)

lemma extname_webm: "path_extname ''clip.webm'' = ''.webm''"
  by (simp add: extname_base_name base_name_def declared_extension_def)

lemma extname_txt: "path_extname ''notes.txt'' = ''.txt''"
  by (simp add: extname_base_name base_name_def declared_extension_def)

lemma busboy_basename_no_slash: "CHR ''/'' \<notin> set (busboy_basename name)"
proof -
  have "CHR ''/'' \<notin> set (takeWhile (\<lambda>c. c \<noteq> CHR ''/'' \<and> c \<noteq> CHR 0x5C) (rev name))"
    using set_takeWhileD [of "CHR ''/''" "\<lambda>c. c \<noteq> CHR ''/'' \<and> c \<noteq> CHR 0x5C" "rev name"] by auto
  then show ?thesis by (simp add: busboy_basename_def Let_def)
qed

lemma filename_cb_basename:
  "filename_cb uuid (part\<lparr>originalname := busboy_basename (originalname part)\<rparr>) =
     uuid @ (case declared_extension (busboy_basename (originalname part)) of
               None \<Rightarrow> ''.mp4'' | Some ext \<Rightarrow> ext)"
  using filename_cb_declared [of uuid "part\<lparr>originalname := busboy_basename (originalname part)\<rparr>"]
    base_name_plain [OF busboy_basename_no_slash [of "originalname part"]]
  by simp

lemma multer_single_stored:
  assumes "busboy_basename (originalname part) \<noteq> []" and "fieldname part = field"
    and "size_bytes part \<le> fileSize_limit"
    and "name = filename_cb (uuidv4 rnds) (part\<lparr>originalname := busboy_basename (originalname part)\<rparr>)"
    and "writable (path_join (destination_cb cwd) name)"
  shows "multer_single field message cwd rnds now writable (Multipart (Some part)) d =
           ((None, Some (file_part.extend (part\<lparr>originalname := busboy_basename (originalname part)\<rparr>)
               (req_file.fields (destination_cb cwd) name (path_join (destination_cb cwd) name)))),
            (name, \<lparr>mtime = now, stat_denied = False, unlink_denied = False\<rparr>)
              # filter (\<lambda>e. fst e \<noteq> name) d)"
  using assms by (simp add: multer_single_def Let_def)

lemma filename_extend:
  "filename (file_part.extend p (req_file.fields dest name pth)) = name"
  by (simp add: file_part.defs req_file.defs)

lemma handle_upload_stored:
  assumes "busboy_basename (originalname part) \<noteq> []" and "fieldname part = ''video''"
    and "size_bytes part \<le> fileSize_limit"
    and "name = filename_cb (uuidv4 rnds) (part\<lparr>originalname := busboy_basename (originalname part)\<rparr>)"
    and "writable (path_join (destination_cb cwd) name)"
  shows "handle_upload message cwd rnds now writable (Multipart (Some part)) d =
           ((200, UploadJson (''/v/'' @ name) name),
            (name, \<lparr>mtime = now, stat_denied = False, unlink_denied = False\<rparr>)
              # filter (\<lambda>e. fst e \<noteq> name) d)"
  unfolding handle_upload_def
    multer_single_stored [where writable = writable, OF assms(1) assms(2) assms(3) assms(4) assms(5)]
  by (simp add: post_api_upload_def upload_callback_def upload_respond_def filename_extend)

lemma url_unreserved_plain:
  assumes "list_all url_unreserved s"
  shows "CHR ''%'' \<notin> set s \<and> CHR ''?'' \<notin> set s \<and> CHR ''#'' \<notin> set s \<and> CHR ''/'' \<notin> set s"
proof -
  have "\<not> url_unreserved (CHR ''%'')" "\<not> url_unreserved (CHR ''?'')"
    "\<not> url_unreserved (CHR ''#'')" "\<not> url_unreserved (CHR ''/'')"
    by (simp_all add: url_unreserved_def)
  then show ?thesis using assms by (auto simp: list_all_iff)
qed

lemma route_get_v_plain:
  assumes "list_all url_unreserved name" and "name \<noteq> []"
  shows "route_get_v decode exists root (''/v/'' @ name) = Handled (get_v exists root name)"
proof -
  note pl = url_unreserved_plain [OF assms(1)]
  have tw: "takeWhile (\<lambda>c. c \<noteq> CHR ''?'' \<and> c \<noteq> CHR ''#'') (''/v/'' @ name) = ''/v/'' @ name"
    by (rule takeWhile_eq_all_conv [THEN iffD2]) (use pl in auto)
  have l: "last name \<noteq> CHR ''/''" using pl assms(2) last_in_set by metis
  show ?thesis
    unfolding route_get_v_def tw using pl assms(2) l by (simp add: decode_param_def)
qed

text \<open>
  C9. The name the \<open>filename\<close> callback gives the backing file is the identifier
  followed by the extension of the original name (of its last component, which is the
  whole name when it has no directory part) when it has one, and by \<open>.mp4\<close> when it has
  none.
\<close>

theorem backing_file_extension:
  "filename_cb uuid file =
     uuid @ (case declared_extension (base_name (originalname file)) of
               None \<Rightarrow> ''.mp4'' | Some ext \<Rightarrow> ext) \<and>
   (CHR ''/'' \<notin> set (originalname file) \<longrightarrow> base_name (originalname file) = originalname file)"
  using filename_cb_declared [of uuid "file"] base_name_plain [of "originalname file"] by blast

theorem backing_file_extension_witness:
  "CHR ''/'' \<notin> set ''clip.mov'' \<and>
   declared_extension ''clip.mov'' = Some ''.mov'' \<and>
   declared_extension ''clip'' = None \<and>
   filename_cb ''id'' \<lparr>fieldname = ''video'', originalname = ''clip.mov'',
       mimetype = ''video/quicktime'', size_bytes = 10\<rparr> = ''id.mov'' \<and>
   filename_cb ''id'' \<lparr>fieldname = ''video'', originalname = ''clip'',
       mimetype = ''video/quicktime'', size_bytes = 10\<rparr> = ''id.mp4''"
proof -
  let ?a = "\<lparr>fieldname = ''video'', originalname = ''clip.mov'',
       mimetype = ''video/quicktime'', size_bytes = 10\<rparr>"
  let ?b = "\<lparr>fieldname = ''video'', originalname = ''clip'',
       mimetype = ''video/quicktime'', size_bytes = 10\<rparr>"
  have d1: "declared_extension ''clip.mov'' = Some ''.mov''"
    by (simp add: declared_extension_def)
  have d2: "declared_extension ''clip'' = None"
    by (simp add: declared_extension_def)
  show ?thesis
    using d1 d2 backing_file_extension [of "''id''" ?a] backing_file_extension [of "''id''" ?b]
    by simp
qed

text \<open>
  C5, as the claim states it, fails: two uploads that differ only in the original file
  name, \<open>clip.mov\<close> and \<open>clip.webm\<close>, are stored under different names for the same
  random bytes, since the extension of the original name is part of the stored name.
\<close>

theorem stored_name_follows_original_extension:
  "filename_cb (uuidv4 [0, 0, 0, 0, 0, 0, 0, 0, 0, 0, 0, 0, 0, 0, 0, 0])
     \<lparr>fieldname = ''video'', originalname = ''clip.mov'', mimetype = ''video/mp4'', size_bytes = 10\<rparr>
     = ''00000000-0000-4000-8000-000000000000.mov'' \<and>
   filename_cb (uuidv4 [0, 0, 0, 0, 0, 0, 0, 0, 0, 0, 0, 0, 0, 0, 0, 0])
     \<lparr>fieldname = ''video'', originalname = ''clip.webm'', mimetype = ''video/mp4'', size_bytes = 10\<rparr>
     = ''00000000-0000-4000-8000-000000000000.webm''"
  by (simp add: filename_cb_def uuid_zero extname_mov extname_webm)

text \<open>
  C5, amended. The stored name is the 36 characters of the uuid, which is computed from
  the random bytes alone, followed by an extension; the extension is either \<open>.mp4\<close> or
  the end of the original file name (of its last component) from its last dot on.
  Nothing of the original name before its last dot is in the stored name.
\<close>

theorem stored_name_uuid_then_extension:
  "\<exists>ext. filename_cb (uuidv4 rnds) file = uuidv4 rnds @ ext \<and>
         length (uuidv4 rnds) = 36 \<and>
         (ext = ''.mp4'' \<or>
          (suffix ext (base_name (originalname file)) \<and> hd ext = CHR ''.'' \<and>
           CHR ''.'' \<notin> set (tl ext)))"
proof (cases "declared_extension (base_name (originalname file))")
  case None
  then show ?thesis
    using filename_cb_declared [of "uuidv4 rnds" "file"] by (simp add: length_uuidv4)
next
  case (Some ext)
  then show ?thesis
    using filename_cb_declared [of "uuidv4 rnds" "file"] declared_extension_Some [OF Some]
    by (simp add: length_uuidv4)
qed

theorem stored_name_uuid_then_extension_witness:
  "base_name ''clip.mov'' = ''clip.mov'' \<and>
   (\<exists>ext. filename_cb (uuidv4 [0, 0, 0, 0, 0, 0, 0, 0, 0, 0, 0, 0, 0, 0, 0, 0])
            \<lparr>fieldname = ''video'', originalname = ''clip.mov'',
              mimetype = ''video/quicktime'', size_bytes = 10\<rparr>
          = ''00000000-0000-4000-8000-000000000000'' @ ext \<and>
          (ext = ''.mp4'' \<or>
            (suffix ext ''clip.mov'' \<and> hd ext = CHR ''.'' \<and> CHR ''.'' \<notin> set (tl ext))))"
proof -
  let ?a = "\<lparr>fieldname = ''video'', originalname = ''clip.mov'',
       mimetype = ''video/quicktime'', size_bytes = 10\<rparr>"
  have b: "base_name ''clip.mov'' = ''clip.mov''" by (simp add: base_name_def)
  show ?thesis
    using b stored_name_uuid_then_extension [of "[0, 0, 0, 0, 0, 0, 0, 0, 0, 0, 0, 0, 0, 0, 0, 0]" ?a]
    by (simp add: uuid_zero)
qed

text \<open>
  C7, as the claim states it, fails: the \<open>url\<close> field is \<open>/v/\<close> followed by the whole
  file name, extension included. It is not \<open>/v/\<close> followed by the minted uuid, and the
  \<open>filename\<close> field is not the path segment after \<open>/v/\<close> followed by the extension;
  a \<open>GET\<close> of \<open>/v/\<close> with the bare uuid is answered 404 right after the upload.
\<close>

theorem upload_url_carries_extension:
  "handle_upload (\<lambda>c. []) ''/srv/app'' [0, 0, 0, 0, 0, 0, 0, 0, 0, 0, 0, 0, 0, 0, 0, 0] 5000 (\<lambda>p. True)
     (Multipart (Some \<lparr>fieldname = ''video'', originalname = ''clip.mov'',
        mimetype = ''video/quicktime'', size_bytes = 10485760\<rparr>)) []
     = ((200, UploadJson ''/v/00000000-0000-4000-8000-000000000000.mov''
                ''00000000-0000-4000-8000-000000000000.mov''),
        [(''00000000-0000-4000-8000-000000000000.mov'',
          \<lparr>mtime = 5000, stat_denied = False, unlink_denied = False\<rparr>)]) \<and>
   uuidv4 [0, 0, 0, 0, 0, 0, 0, 0, 0, 0, 0, 0, 0, 0, 0, 0] = ''00000000-0000-4000-8000-000000000000'' \<and>
   ''/v/00000000-0000-4000-8000-000000000000.mov'' \<noteq>
     ''/v/'' @ uuidv4 [0, 0, 0, 0, 0, 0, 0, 0, 0, 0, 0, 0, 0, 0, 0, 0] \<and>
   ''00000000-0000-4000-8000-000000000000.mov'' \<noteq>
     drop 3 ''/v/00000000-0000-4000-8000-000000000000.mov'' @ ''.mov'' \<and>
   route_get_v Map.empty
     (existsSync (uploadDir ''/srv/app'')
        [(''00000000-0000-4000-8000-000000000000.mov'',
          \<lparr>mtime = 5000, stat_denied = False, unlink_denied = False\<rparr>)] [])
     (uploadDir ''/srv/app'') (''/v/'' @ uuidv4 [0, 0, 0, 0, 0, 0, 0, 0, 0, 0, 0, 0, 0, 0, 0, 0])
     = Handled (404, ExpiredPage)"
proof -
  let ?p = "\<lparr>fieldname = ''video'', originalname = ''clip.mov'', mimetype = ''video/quicktime'',
             size_bytes = 10485760\<rparr>"
  have bb: "busboy_basename ''clip.mov'' = ''clip.mov''"
    by (simp add: busboy_basename_def)
  have n: "filename_cb (uuidv4 [0, 0, 0, 0, 0, 0, 0, 0, 0, 0, 0, 0, 0, 0, 0, 0]) (?p\<lparr>originalname := busboy_basename (originalname ?p)\<rparr>)
             = ''00000000-0000-4000-8000-000000000000.mov''"
    by (simp add: bb filename_cb_def uuid_zero extname_mov)
  have a: "busboy_basename (originalname ?p) \<noteq> []" by (simp add: bb)
  have b: "fieldname ?p = ''video''" by simp
  have c: "size_bytes ?p \<le> fileSize_limit" by (simp add: fileSize_limit_def)
  have u: "handle_upload (\<lambda>c. []) ''/srv/app'' [0, 0, 0, 0, 0, 0, 0, 0, 0, 0, 0, 0, 0, 0, 0, 0] 5000 (\<lambda>p. True) (Multipart (Some ?p)) []
     = ((200, UploadJson ''/v/00000000-0000-4000-8000-000000000000.mov''
                ''00000000-0000-4000-8000-000000000000.mov''),
        [(''00000000-0000-4000-8000-000000000000.mov'',
          \<lparr>mtime = 5000, stat_denied = False, unlink_denied = False\<rparr>)])"
    using handle_upload_stored [where writable = "\<lambda>p. True" and cwd = "''/srv/app''"
        and message = "\<lambda>c. []" and now = 5000 and d = "[]", OF a b c n [symmetric]]
    by simp
  have j: "path_join ''/srv/app/uploads'' ''00000000-0000-4000-8000-000000000000''
             = ''/srv/app/uploads/00000000-0000-4000-8000-000000000000''"
    by (simp add: path_join_def path_normalize_def)
  have r: "route_get_v Map.empty
     (existsSync (uploadDir ''/srv/app'')
        [(''00000000-0000-4000-8000-000000000000.mov'',
          \<lparr>mtime = 5000, stat_denied = False, unlink_denied = False\<rparr>)] [])
     (uploadDir ''/srv/app'') (''/v/'' @ uuidv4 [0, 0, 0, 0, 0, 0, 0, 0, 0, 0, 0, 0, 0, 0, 0, 0])
     = Handled (404, ExpiredPage)"
    by (simp add: uuid_zero route_get_v_def decode_param_def uploadDir_srv get_v_def j
        existsSync_def)
  show ?thesis using u r by (simp add: uuid_zero)
qed

text \<open>
  C7, amended. An upload of one part named \<open>video\<close> whose base file name is not empty,
  within the size limit, whose write the file system takes, is answered 200 with
  \<open>url = "/v/" + name\<close> and \<open>filename = name\<close>, where \<open>name\<close> is the uuid followed by the
  extension (the original name's, or \<open>.mp4\<close>); the name is longer than 36 characters;
  and when the name is made of letters, digits, \<open>-\<close>, \<open>.\<close>, \<open>_\<close> and \<open>~\<close> only, a
  \<open>GET\<close> of the returned url reaches the viewer route with that name as its id and is
  served the viewer page.
\<close>

theorem upload_success_response:
  assumes segs: "list_all clean_segment segs"
    and p: "fieldname p = ''video''" "size_bytes p \<le> fileSize_limit"
    and nm: "busboy_basename (originalname p) \<noteq> []"
    and name: "name = uuidv4 rnds @ (case declared_extension (busboy_basename (originalname p)) of
                                       None \<Rightarrow> ''.mp4'' | Some ext \<Rightarrow> ext)"
    and w: "writable (path_join (uploadDir (abs_path segs)) name)"
  shows "\<exists>d'.
           handle_upload message (abs_path segs) rnds now writable (Multipart (Some p)) d =
             ((200, UploadJson (''/v/'' @ name) name), d') \<and>
           36 < length name \<and>
           (list_all url_unreserved name \<longrightarrow>
              route_get_v decode (existsSync (uploadDir (abs_path segs)) d' others)
                (uploadDir (abs_path segs)) (''/v/'' @ name)
              = Handled (200, ViewerPage (''/uploads/'' @ name)))"
proof -
  let ?q = "p\<lparr>originalname := busboy_basename (originalname p)\<rparr>"
  let ?d = "(name, \<lparr>mtime = now, stat_denied = False, unlink_denied = False\<rparr>)
              # filter (\<lambda>e. fst e \<noteq> name) d"
  have n: "name = filename_cb (uuidv4 rnds) ?q"
    using name filename_cb_basename [of "uuidv4 rnds" p] by simp
  have w': "writable (path_join (destination_cb (abs_path segs)) name)"
    using w by (simp add: destination_cb_def)
  have 1: "handle_upload message (abs_path segs) rnds now writable (Multipart (Some p)) d =
             ((200, UploadJson (''/v/'' @ name) name), ?d)"
    by (rule handle_upload_stored [where writable = writable, OF nm p n w'])
  have cl: "clean_segment name" and 2: "36 < length name"
    using stored_name_clean [of rnds ?q] n by simp_all
  have 3: "route_get_v decode (existsSync (uploadDir (abs_path segs)) ?d others)
                (uploadDir (abs_path segs)) (''/v/'' @ name)
              = Handled (200, ViewerPage (''/uploads/'' @ name))"
    if u: "list_all url_unreserved name"
  proof -
    have "name \<noteq> []" using 2 by auto
    then show ?thesis
      using route_get_v_plain [OF u] viewer_status [OF segs cl refl, of ?d others] by simp
  qed
  show ?thesis
    by (rule exI [of _ ?d]) (use 1 2 3 in blast)
qed

theorem upload_success_response_witness:
  "list_all clean_segment [''srv'', ''app''] \<and>
   busboy_basename ''clips/clip.mov'' = ''clip.mov'' \<and>
   list_all url_unreserved ''00000000-0000-4000-8000-000000000000.mov'' \<and>
   (\<exists>d'.
      handle_upload (\<lambda>c. []) (abs_path [''srv'', ''app'']) [0, 0, 0, 0, 0, 0, 0, 0, 0, 0, 0, 0, 0, 0, 0, 0]
        5000 (\<lambda>p. True)
        (Multipart (Some \<lparr>fieldname = ''video'', originalname = ''clips/clip.mov'',
           mimetype = ''video/quicktime'', size_bytes = 10485760\<rparr>)) []
        = ((200, UploadJson ''/v/00000000-0000-4000-8000-000000000000.mov''
                   ''00000000-0000-4000-8000-000000000000.mov''), d') \<and>
      route_get_v Map.empty (existsSync (uploadDir (abs_path [''srv'', ''app''])) d' [])
        (uploadDir (abs_path [''srv'', ''app'']))
        ''/v/00000000-0000-4000-8000-000000000000.mov''
        = Handled (200, ViewerPage ''/uploads/00000000-0000-4000-8000-000000000000.mov''))"
proof -
  let ?p = "\<lparr>fieldname = ''video'', originalname = ''clips/clip.mov'',
             mimetype = ''video/quicktime'', size_bytes = 10485760\<rparr>"
  have h1: "list_all clean_segment [''srv'', ''app'']" by (simp add: clean_segment_def)
  have h2: "fieldname ?p = ''video''" by simp
  have h3: "size_bytes ?p \<le> fileSize_limit" by (simp add: fileSize_limit_def)
  have bb: "busboy_basename ''clips/clip.mov'' = ''clip.mov''"
    by (simp add: busboy_basename_def)
  have h4: "busboy_basename (originalname ?p) \<noteq> []" by (simp add: bb)
  have h5: "''00000000-0000-4000-8000-000000000000.mov'' =
              uuidv4 [0, 0, 0, 0, 0, 0, 0, 0, 0, 0, 0, 0, 0, 0, 0, 0] @ (case declared_extension (busboy_basename (originalname ?p)) of
                             None \<Rightarrow> ''.mp4'' | Some ext \<Rightarrow> ext)"
    by (simp add: bb uuid_zero declared_extension_def)
  have h6: "(\<lambda>p. True) (path_join (uploadDir (abs_path [''srv'', ''app'']))
              ''00000000-0000-4000-8000-000000000000.mov'')" by simp
  have un: "list_all url_unreserved ''00000000-0000-4000-8000-000000000000.mov''"
    by (simp add: url_unreserved_def)
  show ?thesis
    using h1 bb un
      upload_success_response [where writable = "\<lambda>p. True" and message = "\<lambda>c. []"
        and now = 5000 and d = "[]" and decode = Map.empty and others = "[]",
        OF h1 h2 h3 h4 h5 h6]
    by simp
qed

text \<open>
  C4, as the claim states it, fails: an upload whose declared media type is
  \<open>text/plain\<close> is stored and answered 200 by the server.
\<close>

theorem server_stores_non_video_type:
  "handle_upload (\<lambda>c. []) ''/srv/app'' [0, 0, 0, 0, 0, 0, 0, 0, 0, 0, 0, 0, 0, 0, 0, 0] 5000 (\<lambda>p. True)
     (Multipart (Some \<lparr>fieldname = ''video'', originalname = ''notes.txt'',
        mimetype = ''text/plain'', size_bytes = 12\<rparr>)) []
     = ((200, UploadJson ''/v/00000000-0000-4000-8000-000000000000.txt''
               ''00000000-0000-4000-8000-000000000000.txt''),
        [(''00000000-0000-4000-8000-000000000000.txt'',
          \<lparr>mtime = 5000, stat_denied = False, unlink_denied = False\<rparr>)])"
proof -
  let ?p = "\<lparr>fieldname = ''video'', originalname = ''notes.txt'', mimetype = ''text/plain'',
             size_bytes = 12\<rparr>"
  have bb: "busboy_basename ''notes.txt'' = ''notes.txt''"
    by (simp add: busboy_basename_def)
  have n: "filename_cb (uuidv4 [0, 0, 0, 0, 0, 0, 0, 0, 0, 0, 0, 0, 0, 0, 0, 0]) (?p\<lparr>originalname := busboy_basename (originalname ?p)\<rparr>)
             = ''00000000-0000-4000-8000-000000000000.txt''"
    by (simp add: bb filename_cb_def uuid_zero extname_txt)
  have a: "busboy_basename (originalname ?p) \<noteq> []" by (simp add: bb)
  have b: "fieldname ?p = ''video''" by simp
  have c: "size_bytes ?p \<le> fileSize_limit" by (simp add: fileSize_limit_def)
  show ?thesis
    using handle_upload_stored [where writable = "\<lambda>p. True" and cwd = "''/srv/app''"
        and message = "\<lambda>c. []" and now = 5000 and d = "[]", OF a b c n [symmetric]]
    by simp
qed

text \<open>
  C4, amended. The upload page posts a file only when its declared type starts with
  \<open>video/\<close>, and shows an error instead when it does not. The server does not look at
  the declared media type: its response and what it stores are the same whatever the
  type of the part is.
\<close>

theorem media_type_checked_by_client_only:
  "(\<not> prefix ''video/'' (file_type bf) \<longrightarrow>
      handleFile bf = SetError ''Please upload a valid video file (MP4, WebM, MOV, etc).'') \<and>
   (handleFile bf = PostUpload part \<longrightarrow> prefix ''video/'' (mimetype part)) \<and>
   handle_upload message cwd rnds now writable (Multipart (Some (p\<lparr>mimetype := m\<rparr>))) d =
     handle_upload message cwd rnds now writable (Multipart (Some p)) d"
proof (intro conjI impI)
  show "handleFile bf = SetError ''Please upload a valid video file (MP4, WebM, MOV, etc).''"
    if "\<not> prefix ''video/'' (file_type bf)"
    using that by (simp add: handleFile_def)
  show "prefix ''video/'' (mimetype part)" if "handleFile bf = PostUpload part"
    using that by (auto simp: handleFile_def split: if_splits)
  show "handle_upload message cwd rnds now writable (Multipart (Some (p\<lparr>mimetype := m\<rparr>))) d =
     handle_upload message cwd rnds now writable (Multipart (Some p)) d"
    by (simp add: handle_upload_def multer_single_def Let_def filename_cb_def
        post_api_upload_def upload_callback_def upload_respond_def file_part.defs req_file.defs)
qed

theorem media_type_checked_by_client_only_witness:
  "\<not> prefix ''video/'' (file_type \<lparr>file_name = ''notes.txt'', file_type = ''text/plain'', file_size = 12\<rparr>) \<and>
   handleFile \<lparr>file_name = ''notes.txt'', file_type = ''text/plain'', file_size = 12\<rparr>
     = SetError ''Please upload a valid video file (MP4, WebM, MOV, etc).'' \<and>
   handleFile \<lparr>file_name = ''clip.mov'', file_type = ''video/quicktime'', file_size = 12\<rparr>
     = PostUpload \<lparr>fieldname = ''video'', originalname = ''clip.mov'',
         mimetype = ''video/quicktime'', size_bytes = 12\<rparr> \<and>
   prefix ''video/'' ''video/quicktime'' \<and>
   handle_upload (\<lambda>c. []) ''/srv/app'' [0, 0, 0, 0, 0, 0, 0, 0, 0, 0, 0, 0, 0, 0, 0, 0] 5000 (\<lambda>p. True)
     (Multipart (Some (\<lparr>fieldname = ''video'', originalname = ''clip.mov'',
         mimetype = ''video/quicktime'', size_bytes = 12\<rparr>\<lparr>mimetype := ''text/plain''\<rparr>))) [] =
   handle_upload (\<lambda>c. []) ''/srv/app'' [0, 0, 0, 0, 0, 0, 0, 0, 0, 0, 0, 0, 0, 0, 0, 0] 5000 (\<lambda>p. True)
     (Multipart (Some \<lparr>fieldname = ''video'', originalname = ''clip.mov'',
         mimetype = ''video/quicktime'', size_bytes = 12\<rparr>)) []"
proof -
  let ?bad = "\<lparr>file_name = ''notes.txt'', file_type = ''text/plain'', file_size = 12\<rparr>"
  let ?good = "\<lparr>file_name = ''clip.mov'', file_type = ''video/quicktime'', file_size = 12\<rparr>"
  let ?part = "\<lparr>fieldname = ''video'', originalname = ''clip.mov'',
         mimetype = ''video/quicktime'', size_bytes = 12\<rparr>"
  have h1: "\<not> prefix ''video/'' (file_type ?bad)" by simp
  have h2: "handleFile ?good = PostUpload ?part" by (simp add: handleFile_def)
  note t1 = media_type_checked_by_client_only [where bf = "?bad" and part = "?part" and p = "?part"
      and cwd = "''/srv/app''" and rnds = "[0, 0, 0, 0, 0, 0, 0, 0, 0, 0, 0, 0, 0, 0, 0, 0]" and now = 5000 and writable = "\<lambda>p. True"
      and message = "\<lambda>c. []" and m = "''text/plain''" and d = "[]"]
  note t2 = media_type_checked_by_client_only [where bf = "?good" and part = "?part" and p = "?part"
      and cwd = "''/srv/app''" and rnds = "[0, 0, 0, 0, 0, 0, 0, 0, 0, 0, 0, 0, 0, 0, 0, 0]" and now = 5000 and writable = "\<lambda>p. True"
      and message = "\<lambda>c. []" and m = "''text/plain''" and d = "[]"]
  have a: "handleFile ?bad = SetError ''Please upload a valid video file (MP4, WebM, MOV, etc).''"
    using t1 h1 by blast
  have b: "prefix ''video/'' (mimetype ?part)" using t2 h2 by blast
  have c: "handle_upload (\<lambda>c. []) ''/srv/app'' [0, 0, 0, 0, 0, 0, 0, 0, 0, 0, 0, 0, 0, 0, 0, 0] 5000 (\<lambda>p. True)
             (Multipart (Some (?part\<lparr>mimetype := ''text/plain''\<rparr>))) [] =
           handle_upload (\<lambda>c. []) ''/srv/app'' [0, 0, 0, 0, 0, 0, 0, 0, 0, 0, 0, 0, 0, 0, 0, 0] 5000 (\<lambda>p. True) (Multipart (Some ?part)) []"
    using t1 by blast
  show ?thesis using h1 h2 a b c by simp
qed




text \<open>
  C1. The viewer route passes \<open>req.params.id\<close> to \<open>path.join\<close> unchecked. For the id
  \<open>../server.ts\<close> (the request \<open>GET /v/..%2Fserver.ts\<close>) the path it tests is
  \<open>/srv/app/server.ts\<close>, outside the upload directory, and the status of the answer
  tells whether a file exists there.
\<close>

theorem viewer_route_leaves_upload_root:
  "path_join (uploadDir ''/srv/app'') ''../server.ts'' = ''/srv/app/server.ts'' \<and>
   \<not> inside_dir (uploadDir ''/srv/app'') (path_join (uploadDir ''/srv/app'') ''../server.ts'') \<and>
   get_v (existsSync (uploadDir ''/srv/app'') [] [''/srv/app/server.ts''])
     (uploadDir ''/srv/app'') ''../server.ts'' = (200, ViewerPage ''/uploads/../server.ts'') \<and>
   get_v (existsSync (uploadDir ''/srv/app'') [] [''/srv/app/server.ts''])
     (uploadDir ''/srv/app'') ''../missing.ts'' = (404, ExpiredPage)"
  by (simp add: uploadDir_srv get_v_def existsSync_def path_join_def path_normalize_def
      inside_dir_def)

end
